theory Spec2Isabelle
  imports Main "HOL-Library.Word" "HOL-Library.Multiset"
begin

unbundle bit_operations_syntax

section \<open>Virtual EPC (arch/x86/kernel/cpu/sgx/virt.c): data model\<close>

text \<open>
  \<^verbatim>\<open>unsigned long\<close> is a 64-bit word on x86-64. A \<^verbatim>\<open>struct sgx_epc_page *\<close> is
  modelled by its address; a pointer that may be \<^verbatim>\<open>NULL\<close> is an \<open>option\<close>, and an
  \<^verbatim>\<open>ERR_PTR\<close> result is a sum with the errno on the left. C \<^verbatim>\<open>int\<close> values
  (return codes, byte counts) are \<open>int\<close>: no arithmetic on them in this file leaves
  the 32-bit range.
\<close>

type_synonym ulong = "64 word"
type_synonym epc_page = "64 word"
type_synonym byte = "8 word"

subsection \<open>Constants of the kernel headers\<close>

definition EIO :: int where "EIO = 5"
definition ENOMEM :: int where "ENOMEM = 12"
definition EFAULT :: int where "EFAULT = 14"
definition EBUSY :: int where "EBUSY = 16"
definition EINVAL :: int where "EINVAL = 22"

definition SGX_CHILD_PRESENT :: int where "SGX_CHILD_PRESENT = 13"

definition PAGE_SHIFT :: nat where "PAGE_SHIFT = 12"
definition PAGE_SIZE :: ulong where "PAGE_SIZE = 4096"
definition PAGE_MASK :: ulong where "PAGE_MASK = NOT (PAGE_SIZE - 1)"

definition PFN_DOWN :: "ulong \<Rightarrow> ulong" where
  "PFN_DOWN x = drop_bit PAGE_SHIFT x"

definition VM_SHARED :: ulong where "VM_SHARED = 0x8"
definition VM_PFNMAP :: ulong where "VM_PFNMAP = 0x400"
definition VM_IO :: ulong where "VM_IO = 0x4000"
definition VM_DONTDUMP :: ulong where "VM_DONTDUMP = 0x4000000"

type_synonym vm_fault_t = "32 word"

definition VM_FAULT_SIGBUS :: vm_fault_t where "VM_FAULT_SIGBUS = 0x2"
definition VM_FAULT_NOPAGE :: vm_fault_t where "VM_FAULT_NOPAGE = 0x100"
definition VM_FAULT_RETRY :: vm_fault_t where "VM_FAULT_RETRY = 0x400"

definition FAULT_FLAG_ALLOW_RETRY :: "32 word" where "FAULT_FLAG_ALLOW_RETRY = 0x4"

subsection \<open>The host's mapping descriptor and the region\<close>

datatype vm_operations_struct = Sgx_virt_epc_vm_ops

record vm_area_struct =
  vm_start :: ulong
  vm_pgoff :: ulong
  vm_flags :: ulong
  vm_mm :: nat
  vm_ops :: "vm_operations_struct option"
  vm_private_data :: "nat option"

record struct_file =
  private_data :: nat

text \<open>
  The xarray \<^verbatim>\<open>page_array\<close> is an association list from page index to page handle.
  \<^verbatim>\<open>xa_load\<close> is \<open>NULL\<close> on an absent index, \<^verbatim>\<open>xa_store\<close> replaces or inserts
  (kept in ascending index order, the order in which \<^verbatim>\<open>xa_for_each\<close> visits the
  entries), \<^verbatim>\<open>xa_erase\<close> removes the index.
\<close>

type_synonym xarray = "(ulong \<times> epc_page) list"

definition xa_load :: "xarray \<Rightarrow> ulong \<Rightarrow> epc_page option" where
  "xa_load xa index = map_of xa index"

fun xa_store :: "xarray \<Rightarrow> ulong \<Rightarrow> epc_page \<Rightarrow> xarray" where
  "xa_store [] index p = [(index, p)]"
| "xa_store ((k, q) # xa) index p =
     (if index = k then (index, p) # xa
      else if index < k then (index, p) # (k, q) # xa
      else (k, q) # xa_store xa index p)"

definition xa_erase :: "xarray \<Rightarrow> ulong \<Rightarrow> xarray" where
  "xa_erase xa index = filter (\<lambda>e. fst e \<noteq> index) xa"

text \<open>
  An xarray holds one entry per index; as a list, its indices are strictly ascending.
\<close>

definition xa_wf :: "xarray \<Rightarrow> bool" where
  "xa_wf xa \<longleftrightarrow> sorted_wrt (<) (map fst xa)"

text \<open>
  \<^verbatim>\<open>struct sgx_virt_epc\<close>; the \<^verbatim>\<open>rw_semaphore\<close> is left out, the model being
  sequential. \<open>mm\<close> is the identity of the owning address space.
\<close>

record sgx_virt_epc =
  page_array :: xarray
  mm :: nat

section \<open>Bind: \<^verbatim>\<open>sgx_virt_epc_mmap\<close>\<close>

text \<open>
  The first argument is the region \<^verbatim>\<open>file->private_data\<close> points to. The result is
  the return code and the mapping descriptor as the call leaves it.
\<close>

definition sgx_virt_epc_mmap ::
  "'a sgx_virt_epc_scheme \<Rightarrow> struct_file \<Rightarrow> vm_area_struct \<Rightarrow> int \<times> vm_area_struct" where
  "sgx_virt_epc_mmap epc fl vma =
     (if vm_flags vma AND VM_SHARED = 0 then (- EINVAL, vma)
      else if vm_mm vma \<noteq> mm epc then (- EINVAL, vma)
      else (0, vma\<lparr>vm_ops := Some Sgx_virt_epc_vm_ops,
                    vm_flags := vm_flags vma OR (VM_PFNMAP OR VM_IO OR VM_DONTDUMP),
                    vm_private_data := Some (private_data fl)\<rparr>))"

section \<open>Physical page source and hardware primitives\<close>

text \<open>
  \<^verbatim>\<open>struct sgx_epc_section\<close> (sgx.h), with the fields that this file reads.
\<close>

record sgx_epc_section =
  phys_addr :: ulong
  virt_addr :: ulong
  pages :: ulong

text \<open>
  What the code takes from outside: the table \<^verbatim>\<open>sgx_epc_sections\<close>, the field
  \<^verbatim>\<open>page->section\<close> of every page descriptor, and the ENCLS leaves. \<^verbatim>\<open>__eremove\<close>
  works on a hardware state of type \<open>'h\<close> (which pages still have children is decided
  there) and returns its result code with the new hardware state; \<^verbatim>\<open>__edbgrd\<close> and
  \<^verbatim>\<open>__edbgwr\<close> either fail with a non-zero code at an address or transfer the eight
  bytes at it.
\<close>

record 'h sgx_env =
  sgx_epc_sections :: "nat \<Rightarrow> sgx_epc_section"
  page_section :: "epc_page \<Rightarrow> nat"
  eremove :: "'h \<Rightarrow> ulong \<Rightarrow> int \<times> 'h"
  edbgrd_ret :: "ulong \<Rightarrow> int"
  edbgwr_ret :: "ulong \<Rightarrow> int"

definition sizeof_sgx_epc_page :: ulong where
  "sizeof_sgx_epc_page = 32"

definition sgx_get_epc_phys_addr :: "'h sgx_env \<Rightarrow> epc_page \<Rightarrow> ulong" where
  "sgx_get_epc_phys_addr env page =
     (let sec = sgx_epc_sections env (page_section env page);
          index = (page - pages sec) div sizeof_sgx_epc_page
      in phys_addr sec + index * PAGE_SIZE)"

definition sgx_get_epc_virt_addr :: "'h sgx_env \<Rightarrow> epc_page \<Rightarrow> ulong" where
  "sgx_get_epc_virt_addr env page =
     (let sec = sgx_epc_sections env (page_section env page);
          index = (page - pages sec) div sizeof_sgx_epc_page
      in virt_addr sec + index * PAGE_SIZE)"

text \<open>
  The state the operations work on: the region, the global list
  \<^verbatim>\<open>virt_epc_zombie_pages\<close>, the enclave memory by host virtual address, the hardware
  state seen by \<^verbatim>\<open>__eremove\<close>, and a record of every call made to the collaborators:
  pages obtained from \<^verbatim>\<open>sgx_alloc_epc_page\<close>, pages handed back to the page source,
  calls of \<^verbatim>\<open>vmf_insert_pfn\<close> with their result, calls of \<^verbatim>\<open>__eremove\<close> with their
  result. \<open>mmap_lock_held\<close> is the read lock of the faulting address space.
\<close>

record 'h sgx_sys = sgx_virt_epc +
  virt_epc_zombie_pages :: "epc_page list"
  free_pages :: "epc_page list"
  alloc_pages :: "epc_page list"
  pfn_inserts :: "(vm_area_struct \<times> ulong \<times> ulong \<times> vm_fault_t) list"
  eremove_calls :: "(epc_page \<times> int) list"
  epc_mem :: "ulong \<Rightarrow> byte"
  epcm :: 'h
  mmap_lock_held :: bool

text \<open>
  Modelled from the spec: \<^verbatim>\<open>sgx_free_epc_page\<close> is only declared in sgx.h; it is
  the page source's \<^verbatim>\<open>free_page(PageHandle)\<close>, which accepts the handle.
\<close>

definition sgx_free_epc_page :: "epc_page \<Rightarrow> 'h sgx_sys \<Rightarrow> 'h sgx_sys" where
  "sgx_free_epc_page page s = s\<lparr>free_pages := free_pages s @ [page]\<rparr>"

section \<open>Region lifecycle: \<^verbatim>\<open>sgx_virt_epc_open\<close>\<close>

definition sgx_virt_epc_open :: "nat \<Rightarrow> 'h sgx_sys \<Rightarrow> 'h sgx_sys" where
  "sgx_virt_epc_open current_mm s = s\<lparr>page_array := [], mm := current_mm\<rparr>"

section \<open>Fault handler\<close>

definition sgx_virt_epc_calc_index :: "vm_area_struct \<Rightarrow> ulong \<Rightarrow> ulong" where
  "sgx_virt_epc_calc_index vma addr = vm_pgoff vma + PFN_DOWN (addr - vm_start vma)"

text \<open>
  What the collaborators answer during one fault: the result of
  \<^verbatim>\<open>sgx_alloc_epc_page\<close> (a page, or an errno as \<^verbatim>\<open>ERR_PTR\<close>), the \<^verbatim>\<open>xa_err\<close> of
  \<^verbatim>\<open>xa_store\<close> (on a non-zero error the array is left as it was), the result of
  \<^verbatim>\<open>vmf_insert_pfn\<close>, and \<^verbatim>\<open>signal_pending(current)\<close>.
\<close>

record fault_oracle =
  alloc_result :: "int + epc_page"
  store_result :: int
  insert_result :: vm_fault_t
  signal_pending :: bool

definition vmf_insert_pfn ::
  "fault_oracle \<Rightarrow> vm_area_struct \<Rightarrow> ulong \<Rightarrow> ulong \<Rightarrow> 'h sgx_sys \<Rightarrow> vm_fault_t \<times> 'h sgx_sys" where
  "vmf_insert_pfn orc vma addr pfn s =
     (insert_result orc,
      s\<lparr>pfn_inserts := pfn_inserts s @ [(vma, addr, pfn, insert_result orc)]\<rparr>)"

text \<open>\<^verbatim>\<open>__sgx_virt_epc_fault\<close>.\<close>

definition sgx_virt_epc_fault_inner ::
  "'h sgx_env \<Rightarrow> fault_oracle \<Rightarrow> vm_area_struct \<Rightarrow> ulong \<Rightarrow> 'h sgx_sys \<Rightarrow> int \<times> 'h sgx_sys" where
  "sgx_virt_epc_fault_inner env orc vma addr s =
     (let index = sgx_virt_epc_calc_index vma addr in
      case xa_load (page_array s) index of
        Some present \<Rightarrow> (0, s)
      | None \<Rightarrow>
          (case alloc_result orc of
             Inl err \<Rightarrow> (err, s)
           | Inr epc_page \<Rightarrow>
               (let s1 = s\<lparr>alloc_pages := alloc_pages s @ [epc_page]\<rparr> in
                if store_result orc \<noteq> 0
                then (store_result orc, sgx_free_epc_page epc_page s1)
                else
                  (let s2 = s1\<lparr>page_array := xa_store (page_array s1) index epc_page\<rparr>;
                       pfn = PFN_DOWN (sgx_get_epc_phys_addr env epc_page)
                   in case vmf_insert_pfn orc vma addr pfn s2 of
                        (ret, s3) \<Rightarrow>
                          if ret \<noteq> VM_FAULT_NOPAGE
                          then (- EFAULT,
                                sgx_free_epc_page epc_page
                                  (s3\<lparr>page_array := xa_erase (page_array s3) index\<rparr>))
                          else (0, s3)))))"

record vm_fault =
  vmf_vma :: vm_area_struct
  vmf_address :: ulong
  vmf_flags :: "32 word"

definition sgx_virt_epc_fault ::
  "'h sgx_env \<Rightarrow> fault_oracle \<Rightarrow> vm_fault \<Rightarrow> 'h sgx_sys \<Rightarrow> vm_fault_t \<times> 'h sgx_sys" where
  "sgx_virt_epc_fault env orc vmf s =
     (case sgx_virt_epc_fault_inner env orc (vmf_vma vmf) (vmf_address vmf) s of
        (ret, s1) \<Rightarrow>
          if ret = 0 \<or> signal_pending orc then (VM_FAULT_NOPAGE, s1)
          else if ret = - EBUSY \<and> vmf_flags vmf AND FAULT_FLAG_ALLOW_RETRY \<noteq> 0
          then (VM_FAULT_RETRY, s1\<lparr>mmap_lock_held := False\<rparr>)
          else (VM_FAULT_SIGBUS, s1))"

text \<open>
  The host delivers faults one after the other, each with its own mapping, address and
  answers of the collaborators.
\<close>

fun fault_run ::
  "'h sgx_env \<Rightarrow> (fault_oracle \<times> vm_fault) list \<Rightarrow> 'h sgx_sys \<Rightarrow> 'h sgx_sys" where
  "fault_run env [] s = s"
| "fault_run env ((orc, vmf) # rest) s =
     fault_run env rest (snd (sgx_virt_epc_fault env orc vmf s))"

text \<open>The successful page-frame installations recorded for a page index.\<close>

definition installed_at ::
  "'h sgx_sys \<Rightarrow> ulong \<Rightarrow> (vm_area_struct \<times> ulong \<times> ulong \<times> vm_fault_t) list" where
  "installed_at s index =
     filter (\<lambda>(vma, addr, pfn, r). r = VM_FAULT_NOPAGE \<and> sgx_virt_epc_calc_index vma addr = index)
       (pfn_inserts s)"

text \<open>
  Invariant of a region under faults: an index has at most one successful installation
  on record, and none while the table has no entry for it.
\<close>

definition install_inv :: "'h sgx_sys \<Rightarrow> bool" where
  "install_inv s \<longleftrightarrow>
     (\<forall>index. length (installed_at s index)
                \<le> (if xa_load (page_array s) index = None then 0 else 1))"

section \<open>Debug access handler\<close>

definition ALIGN_DOWN :: "ulong \<Rightarrow> ulong \<Rightarrow> ulong" where
  "ALIGN_DOWN x a = x AND NOT (a - 1)"

text \<open>
  \<^verbatim>\<open>memcpy(dst + doff, src + soff, n)\<close> on byte arrays as lists. The C code never leaves
  the arrays: \<open>doff + n \<le> 8\<close> for the scratch word, and the caller's buffer holds
  \<^verbatim>\<open>len\<close> bytes.
\<close>

definition memcpy :: "byte list \<Rightarrow> nat \<Rightarrow> byte list \<Rightarrow> nat \<Rightarrow> nat \<Rightarrow> byte list" where
  "memcpy dst doff src soff n = take doff dst @ take n (drop soff src) @ drop (doff + n) dst"

text \<open>
  \<^verbatim>\<open>__edbgrd(p, data)\<close> and \<^verbatim>\<open>__edbgwr(p, data)\<close>: eight bytes between the enclave
  memory at \<open>p\<close> and the scratch array, or a non-zero code and no transfer.
\<close>

definition edbgrd :: "'h sgx_env \<Rightarrow> ulong \<Rightarrow> 'h sgx_sys \<Rightarrow> byte list \<Rightarrow> int \<times> byte list" where
  "edbgrd env p s data =
     (if edbgrd_ret env p \<noteq> 0 then (edbgrd_ret env p, data)
      else (0, map (\<lambda>k. epc_mem s (p + of_nat k)) [0..<8]))"

definition edbgwr :: "'h sgx_env \<Rightarrow> ulong \<Rightarrow> byte list \<Rightarrow> 'h sgx_sys \<Rightarrow> int \<times> 'h sgx_sys" where
  "edbgwr env p data s =
     (if edbgwr_ret env p \<noteq> 0 then (edbgwr_ret env p, s)
      else (0, s\<lparr>epc_mem := (\<lambda>a. if a - p < 8 then data ! unat (a - p) else epc_mem s a)\<rparr>))"

text \<open>
  One chunk, from the comment \<^verbatim>\<open>EDBGRD for read, or to do RMW for a partial write\<close>
  to the end of the loop body: the result is the new \<^verbatim>\<open>ret\<close>, scratch array, buffer
  and state.
\<close>

definition access_chunk ::
  "'h sgx_env \<Rightarrow> bool \<Rightarrow> ulong \<Rightarrow> int \<Rightarrow> int \<Rightarrow> int \<Rightarrow> int \<Rightarrow> byte list \<Rightarrow> byte list \<Rightarrow> 'h sgx_sys
   \<Rightarrow> int \<times> byte list \<times> byte list \<times> 'h sgx_sys" where
  "access_chunk env write p offset cnt i ret data buf s =
     (case (if \<not> write \<or> cnt \<noteq> 8 then edbgrd env p s data else (ret, data)) of
        (ret1, data1) \<Rightarrow>
          if ret1 = 0 then
            (if write then
               (let data2 = memcpy data1 (nat offset) buf (nat i) (nat cnt)
                in case edbgwr env p data2 s of (ret2, s2) \<Rightarrow> (ret2, data2, buf, s2))
             else (ret1, data1, memcpy buf (nat i) data1 (nat offset) (nat cnt), s))
          else (ret1, data1, buf, s))"

text \<open>
  The \<^verbatim>\<open>for\<close> loop of \<^verbatim>\<open>sgx_virt_epc_access\<close> from its test \<^verbatim>\<open>i < len && !ret\<close>
  on, with the locals \<^verbatim>\<open>i\<close>, \<^verbatim>\<open>cnt\<close>, \<^verbatim>\<open>index\<close>, \<^verbatim>\<open>data\<close>, \<^verbatim>\<open>ret\<close>
  that live across iterations, and the two returns after it. The result is the return
  value, the caller's buffer and the state.
\<close>

function sgx_virt_epc_access_loop ::
  "'h sgx_env \<Rightarrow> vm_area_struct \<Rightarrow> ulong \<Rightarrow> int \<Rightarrow> bool \<Rightarrow> int \<Rightarrow> int \<Rightarrow> ulong \<Rightarrow> byte list \<Rightarrow> int
   \<Rightarrow> byte list \<Rightarrow> 'h sgx_sys \<Rightarrow> int \<times> byte list \<times> 'h sgx_sys" where
  "sgx_virt_epc_access_loop env vma start len write i cnt index data ret buf s =
     (if i < len \<and> ret = 0 then
        (let addr = start + word_of_int i;
             index1 = (if i = 0 \<or> PFN_DOWN addr \<noteq> PFN_DOWN (addr - word_of_int cnt)
                       then sgx_virt_epc_calc_index vma addr else index)
         in case xa_load (page_array s) index1 of
              None \<Rightarrow> (- EIO, buf, s)
            | Some epc_page \<Rightarrow>
                (let offset = uint (addr AND 7);
                     addr1 = ALIGN_DOWN addr 8;
                     cnt1 = min (8 - offset) (len - i);
                     p = sgx_get_epc_virt_addr env epc_page + (addr1 AND NOT PAGE_MASK)
                 in case access_chunk env write p offset cnt1 i ret data buf s of
                      (ret1, data1, buf1, s1) \<Rightarrow>
                        sgx_virt_epc_access_loop env vma start len write
                          (i + cnt1) cnt1 index1 data1 ret1 buf1 s1))
      else (if ret \<noteq> 0 then - EIO else i, buf, s))"
  by pat_completeness auto

termination sgx_virt_epc_access_loop
  apply (relation "measure (\<lambda>(env, vma, start, len, wr, i, cnt, index, data, ret, buf, s). nat (len - i))")
   apply simp
  subgoal for env vma start len wr i cnt index data ret buf s addr
    using AND_upper2 [of 7 "uint addr"] by (simp add: uint_and)
  done

text \<open>
  \<^verbatim>\<open>sgx_virt_epc_access\<close>: the loop entered with \<^verbatim>\<open>i = 0\<close> and \<^verbatim>\<open>ret = 0\<close>. The
  locals \<^verbatim>\<open>cnt\<close>, \<^verbatim>\<open>index\<close> and \<^verbatim>\<open>data\<close> are not initialised by the code; their
  indeterminate first values are an argument.
\<close>

record access_uninit =
  uninit_cnt :: int
  uninit_index :: ulong
  uninit_data :: "byte list"

definition sgx_virt_epc_access ::
  "'h sgx_env \<Rightarrow> access_uninit \<Rightarrow> vm_area_struct \<Rightarrow> ulong \<Rightarrow> byte list \<Rightarrow> int \<Rightarrow> bool \<Rightarrow> 'h sgx_sys
   \<Rightarrow> int \<times> byte list \<times> 'h sgx_sys" where
  "sgx_virt_epc_access env u vma start buf len write s =
     sgx_virt_epc_access_loop env vma start len write
       0 (uninit_cnt u) (uninit_index u) (uninit_data u) 0 buf s"

text \<open>
  The quadword at an address of the enclave memory, as \<^verbatim>\<open>EDBGRD\<close> hands it over on
  x86 (little-endian: byte \<open>k\<close> of the scratch array is bits \<open>8k\<close> to \<open>8k+7\<close>).
\<close>

definition le64 :: "byte list \<Rightarrow> 64 word" where
  "le64 bs = horner_sum ucast 256 bs"

definition epc_quadword :: "'h sgx_sys \<Rightarrow> ulong \<Rightarrow> 64 word" where
  "epc_quadword s p = le64 (map (\<lambda>k. epc_mem s (p + of_nat k)) [0..<8])"

text \<open>
  The memory \<open>m\<close> with \<open>bytes\<close> laid over the word at \<open>p\<close> from its byte \<open>off\<close>
  on: what a read-modify-write of that word leaves.
\<close>

definition overlay :: "(ulong \<Rightarrow> byte) \<Rightarrow> ulong \<Rightarrow> nat \<Rightarrow> byte list \<Rightarrow> ulong \<Rightarrow> byte" where
  "overlay m p off bytes =
     (\<lambda>a. if a - p < 8 \<and> off \<le> unat (a - p) \<and> unat (a - p) < off + length bytes
          then bytes ! (unat (a - p) - off) else m a)"

text \<open>
  The values one iteration of the loop computes from \<^verbatim>\<open>start\<close>, \<^verbatim>\<open>len\<close> and its
  locals: the index it looks up, \<^verbatim>\<open>offset\<close>, \<^verbatim>\<open>cnt\<close> and the pointer \<^verbatim>\<open>p\<close>.
\<close>

definition access_index :: "vm_area_struct \<Rightarrow> ulong \<Rightarrow> int \<Rightarrow> int \<Rightarrow> ulong \<Rightarrow> ulong" where
  "access_index vma start i cnt index =
     (if i = 0 \<or> PFN_DOWN (start + word_of_int i) \<noteq> PFN_DOWN (start + word_of_int i - word_of_int cnt)
      then sgx_virt_epc_calc_index vma (start + word_of_int i) else index)"

definition access_offset :: "ulong \<Rightarrow> int \<Rightarrow> int" where
  "access_offset start i = uint ((start + word_of_int i) AND 7)"

definition access_cnt :: "ulong \<Rightarrow> int \<Rightarrow> int \<Rightarrow> int" where
  "access_cnt start len i = min (8 - access_offset start i) (len - i)"

definition access_ptr :: "'h sgx_env \<Rightarrow> epc_page \<Rightarrow> ulong \<Rightarrow> int \<Rightarrow> ulong" where
  "access_ptr env pg start i =
     sgx_get_epc_virt_addr env pg + (ALIGN_DOWN (start + word_of_int i) 8 AND NOT PAGE_MASK)"



section \<open>Release protocol\<close>

text \<open>
  Modelled from the spec: \<^verbatim>\<open>__sgx_free_epc_page\<close> is only declared in sgx.h; it is the
  page source's \<^verbatim>\<open>free_page(PageHandle)\<close>.
\<close>

definition sgx_free_epc_page_inner :: "epc_page \<Rightarrow> 'h sgx_sys \<Rightarrow> 'h sgx_sys" where
  "sgx_free_epc_page_inner page s = s\<lparr>free_pages := free_pages s @ [page]\<rparr>"

text \<open>
  \<^verbatim>\<open>sgx_virt_epc_free_page\<close>. The call of \<^verbatim>\<open>__eremove\<close> and its result are put on
  record. \<^verbatim>\<open>WARN_ON_ONCE\<close> only logs.
\<close>

definition sgx_virt_epc_free_page ::
  "'h sgx_env \<Rightarrow> epc_page option \<Rightarrow> 'h sgx_sys \<Rightarrow> int \<times> 'h sgx_sys" where
  "sgx_virt_epc_free_page env epc_page s =
     (case epc_page of
        None \<Rightarrow> (0, s)
      | Some page \<Rightarrow>
          (case eremove env (epcm s) (sgx_get_epc_virt_addr env page) of
             (ret, h) \<Rightarrow>
               (let s1 = s\<lparr>epcm := h, eremove_calls := eremove_calls s @ [(page, ret)]\<rparr>
                in if ret \<noteq> 0 then (ret, s1)
                   else (0, sgx_free_epc_page_inner page s1))))"

text \<open>
  The three loops of \<^verbatim>\<open>sgx_virt_epc_release\<close>. \<^verbatim>\<open>xa_for_each\<close> visits the present
  entries in ascending index order and its body erases at most the entry it is visiting,
  so the entries still to visit are those of the array when the loop starts, given as the
  second argument; \<^verbatim>\<open>list_for_each_entry_safe\<close> likewise walks the zombie list as it is
  when the walk starts. \<^verbatim>\<open>secs_pages\<close> is the local list; \<^verbatim>\<open>list_add_tail\<close> appends
  and \<^verbatim>\<open>list_del\<close> unlinks the page from the zombie list.
\<close>

fun release_pass1 :: "'h sgx_env \<Rightarrow> xarray \<Rightarrow> 'h sgx_sys \<Rightarrow> 'h sgx_sys" where
  "release_pass1 env [] s = s"
| "release_pass1 env ((index, entry) # rest) s =
     (case sgx_virt_epc_free_page env (Some entry) s of
        (ret, s1) \<Rightarrow>
          if ret \<noteq> 0 then release_pass1 env rest s1
          else release_pass1 env rest (s1\<lparr>page_array := xa_erase (page_array s1) index\<rparr>))"

fun release_pass2 ::
  "'h sgx_env \<Rightarrow> xarray \<Rightarrow> epc_page list \<Rightarrow> 'h sgx_sys \<Rightarrow> epc_page list \<times> 'h sgx_sys" where
  "release_pass2 env [] secs_pages s = (secs_pages, s)"
| "release_pass2 env ((index, entry) # rest) secs_pages s =
     (case sgx_virt_epc_free_page env (Some entry) s of
        (ret, s1) \<Rightarrow>
          release_pass2 env rest (if ret \<noteq> 0 then secs_pages @ [entry] else secs_pages)
            (s1\<lparr>page_array := xa_erase (page_array s1) index\<rparr>))"

fun release_pass3 ::
  "'h sgx_env \<Rightarrow> epc_page list \<Rightarrow> epc_page list \<Rightarrow> 'h sgx_sys \<Rightarrow> epc_page list \<times> 'h sgx_sys" where
  "release_pass3 env [] secs_pages s = (secs_pages, s)"
| "release_pass3 env (epc_page # rest) secs_pages s =
     (case sgx_virt_epc_free_page env (Some epc_page)
             (s\<lparr>virt_epc_zombie_pages := remove1 epc_page (virt_epc_zombie_pages s)\<rparr>) of
        (ret, s1) \<Rightarrow>
          release_pass3 env rest (if ret \<noteq> 0 then secs_pages @ [epc_page] else secs_pages) s1)"

text \<open>
  \<^verbatim>\<open>sgx_virt_epc_release\<close>: the return value and the state when the global lock is
  dropped. \<^verbatim>\<open>mmdrop\<close> and \<^verbatim>\<open>kfree\<close> act on objects outside this state.
\<close>

definition sgx_virt_epc_release :: "'h sgx_env \<Rightarrow> 'h sgx_sys \<Rightarrow> int \<times> 'h sgx_sys" where
  "sgx_virt_epc_release env s =
     (let s1 = release_pass1 env (page_array s) s in
      case release_pass2 env (page_array s1) [] s1 of
        (secs_pages, s2) \<Rightarrow>
          (case release_pass3 env (virt_epc_zombie_pages s2) secs_pages s2 of
             (secs_pages3, s3) \<Rightarrow>
               (0, if secs_pages3 \<noteq> []
                   then s3\<lparr>virt_epc_zombie_pages := virt_epc_zombie_pages s3 @ secs_pages3\<rparr>
                   else s3)))"

text \<open>The calls of \<^verbatim>\<open>__eremove\<close> made between two states, oldest first.\<close>

definition eremove_since :: "'h sgx_sys \<Rightarrow> 'h sgx_sys \<Rightarrow> (epc_page \<times> int) list" where
  "eremove_since s s' = drop (length (eremove_calls s)) (eremove_calls s')"

text \<open>The pages handed back to the page source between two states, oldest first.\<close>

definition freed_since :: "'h sgx_sys \<Rightarrow> 'h sgx_sys \<Rightarrow> epc_page list" where
  "freed_since s s' = drop (length (free_pages s)) (free_pages s')"

section \<open>Concrete instances used to exercise the theorems\<close>

definition ex_env :: "nat sgx_env" where
  "ex_env = \<lparr>sgx_epc_sections = (\<lambda>n. \<lparr>phys_addr = 0x80000000, virt_addr = 0x40000000, pages = 0x1000\<rparr>),
             page_section = (\<lambda>p. 0),
             eremove = (\<lambda>h va. (0, h)),
             edbgrd_ret = (\<lambda>a. 0),
             edbgwr_ret = (\<lambda>a. 0)\<rparr>"

definition ex_sys :: "nat sgx_sys" where
  "ex_sys = \<lparr>page_array = [], mm = 7, virt_epc_zombie_pages = [], free_pages = [],
             alloc_pages = [], pfn_inserts = [], eremove_calls = [],
             epc_mem = (\<lambda>a. 0), epcm = 0, mmap_lock_held = True\<rparr>"

definition ex_vma :: vm_area_struct where
  "ex_vma = \<lparr>vm_start = 0x7000000, vm_pgoff = 0, vm_flags = 0x4004408, vm_mm = 7,
             vm_ops = Some Sgx_virt_epc_vm_ops, vm_private_data = Some 1\<rparr>"

definition ex_vmf :: vm_fault where
  "ex_vmf = \<lparr>vmf_vma = ex_vma, vmf_address = 0x7002abc, vmf_flags = 0x4\<rparr>"

definition ex_orc :: fault_oracle where
  "ex_orc = \<lparr>alloc_result = Inr 0x1040, store_result = 0,
             insert_result = VM_FAULT_NOPAGE, signal_pending = False\<rparr>"

definition ex_uninit :: access_uninit where
  "ex_uninit = \<lparr>uninit_cnt = 0, uninit_index = 0,
                uninit_data = [0xAA, 0xAA, 0xAA, 0xAA, 0xAA, 0xAA, 0xAA, 0xAA]\<rparr>"

definition ex_sys2 :: "nat sgx_sys" where
  "ex_sys2 = ex_sys\<lparr>page_array := [(2, 0x1040)], epc_mem := (\<lambda>a. ucast a)\<rparr>"

definition ex_env_rdfail :: "nat sgx_env" where
  "ex_env_rdfail = ex_env\<lparr>edbgrd_ret := (\<lambda>a. if a = 0x40002008 then 1 else 0)\<rparr>"

definition ex_sys3 :: "nat sgx_sys" where
  "ex_sys3 = ex_sys\<lparr>page_array := [(2, 0x1040)]\<rparr>"

text \<open>
  A hardware state for \<^verbatim>\<open>EREMOVE\<close>: the list of (child, SECS) pairs of pages still in
  the EPC, by virtual address. Removing a page that is the SECS of a remaining child
  fails with \<open>SGX_CHILD_PRESENT\<close>; removing any other page succeeds and drops it as a
  child.
\<close>

definition secs_eremove :: "(ulong \<times> ulong) list \<Rightarrow> ulong \<Rightarrow> int \<times> (ulong \<times> ulong) list" where
  "secs_eremove h va =
     (if va \<in> snd ` set h then (SGX_CHILD_PRESENT, h)
      else (0, filter (\<lambda>c. fst c \<noteq> va) h))"

definition ex_env_secs :: "(ulong \<times> ulong) list sgx_env" where
  "ex_env_secs = \<lparr>sgx_epc_sections = (\<lambda>n. \<lparr>phys_addr = 0x80000000, virt_addr = 0x40000000, pages = 0x1000\<rparr>),
                  page_section = (\<lambda>p. 0),
                  eremove = secs_eremove,
                  edbgrd_ret = (\<lambda>a. 0),
                  edbgwr_ret = (\<lambda>a. 0)\<rparr>"

text \<open>
  A region with the SECS page \<open>0x1000\<close> at index 0 and its child \<open>0x1020\<close> at index 1,
  and a zombie list holding \<open>0x1040\<close>, the SECS of a child \<open>0x1060\<close> kept by another
  region, and \<open>0x1080\<close>, which has no child left.
\<close>

definition ex_rel :: "(ulong \<times> ulong) list sgx_sys" where
  "ex_rel = \<lparr>page_array = [(0, 0x1000), (1, 0x1020)], mm = 7,
             virt_epc_zombie_pages = [0x1040, 0x1080], free_pages = [],
             alloc_pages = [0x1000, 0x1020], pfn_inserts = [], eremove_calls = [],
             epc_mem = (\<lambda>a. 0),
             epcm = [(0x40001000, 0x40000000), (0x40003000, 0x40002000)],
             mmap_lock_held = True\<rparr>"

section \<open>Properties\<close>

subsection \<open>Bind\<close>


lemma or_and_absorb_word: "(x OR m) AND m = (m :: ulong)"
  by (simp add: bit_eq_iff bit_and_iff bit_or_iff)

text \<open>
  C8. A bind request is rejected with \<open>-EINVAL\<close> exactly when the mapping is not shared
  or is requested from an address space other than the region's owner; a rejected request
  leaves the mapping descriptor as it was. Otherwise it returns 0 and the descriptor gets
  the region's fault/access operations, the flags \<open>VM_PFNMAP\<close>, \<open>VM_IO\<close> and
  \<open>VM_DONTDUMP\<close> on top of those it had, and the region as its private data.
\<close>

theorem sgx_virt_epc_mmap_contract:
  "(fst (sgx_virt_epc_mmap epc fl vma) = - EINVAL
      \<longleftrightarrow> (vm_flags vma AND VM_SHARED = 0 \<or> vm_mm vma \<noteq> mm epc))
   \<and> (fst (sgx_virt_epc_mmap epc fl vma) = - EINVAL
      \<longrightarrow> snd (sgx_virt_epc_mmap epc fl vma) = vma)
   \<and> (fst (sgx_virt_epc_mmap epc fl vma) \<noteq> - EINVAL
      \<longrightarrow> fst (sgx_virt_epc_mmap epc fl vma) = 0
        \<and> vm_ops (snd (sgx_virt_epc_mmap epc fl vma)) = Some Sgx_virt_epc_vm_ops
        \<and> vm_flags (snd (sgx_virt_epc_mmap epc fl vma))
            = vm_flags vma OR (VM_PFNMAP OR VM_IO OR VM_DONTDUMP)
        \<and> vm_flags (snd (sgx_virt_epc_mmap epc fl vma)) AND VM_PFNMAP = VM_PFNMAP
        \<and> vm_flags (snd (sgx_virt_epc_mmap epc fl vma)) AND VM_IO = VM_IO
        \<and> vm_flags (snd (sgx_virt_epc_mmap epc fl vma)) AND VM_DONTDUMP = VM_DONTDUMP
        \<and> vm_private_data (snd (sgx_virt_epc_mmap epc fl vma)) = Some (private_data fl)
        \<and> vm_start (snd (sgx_virt_epc_mmap epc fl vma)) = vm_start vma
        \<and> vm_pgoff (snd (sgx_virt_epc_mmap epc fl vma)) = vm_pgoff vma
        \<and> vm_mm (snd (sgx_virt_epc_mmap epc fl vma)) = vm_mm vma)"
proof -
  have a: "(x OR (VM_PFNMAP OR VM_IO OR VM_DONTDUMP)) AND VM_PFNMAP = VM_PFNMAP" for x
    using or_and_absorb_word [of "x OR VM_IO OR VM_DONTDUMP" VM_PFNMAP]
    by (simp add: ac_simps)
  have b: "(x OR (VM_PFNMAP OR VM_IO OR VM_DONTDUMP)) AND VM_IO = VM_IO" for x
    using or_and_absorb_word [of "x OR VM_PFNMAP OR VM_DONTDUMP" VM_IO]
    by (simp add: ac_simps)
  have c: "(x OR (VM_PFNMAP OR VM_IO OR VM_DONTDUMP)) AND VM_DONTDUMP = VM_DONTDUMP" for x
    using or_and_absorb_word [of "x OR VM_PFNMAP OR VM_IO" VM_DONTDUMP]
    by (simp add: ac_simps)
  show ?thesis
    by (simp add: sgx_virt_epc_mmap_def EINVAL_def a b c)
qed

theorem sgx_virt_epc_mmap_contract_witness:
  "fst (sgx_virt_epc_mmap \<lparr>page_array = [], mm = 7\<rparr> \<lparr>private_data = 1\<rparr>
      \<lparr>vm_start = 0x1000, vm_pgoff = 0, vm_flags = 0x8, vm_mm = 7,
       vm_ops = None, vm_private_data = None\<rparr>) = 0
   \<and> vm_flags (snd (sgx_virt_epc_mmap \<lparr>page_array = [], mm = 7\<rparr> \<lparr>private_data = 1\<rparr>
      \<lparr>vm_start = 0x1000, vm_pgoff = 0, vm_flags = 0x8, vm_mm = 7,
       vm_ops = None, vm_private_data = None\<rparr>)) = 0x4004408
   \<and> fst (sgx_virt_epc_mmap \<lparr>page_array = [], mm = 7\<rparr> \<lparr>private_data = 1\<rparr>
      \<lparr>vm_start = 0x1000, vm_pgoff = 0, vm_flags = 0x8, vm_mm = 9,
       vm_ops = None, vm_private_data = None\<rparr>) = - 22
   \<and> fst (sgx_virt_epc_mmap \<lparr>page_array = [], mm = 7\<rparr> \<lparr>private_data = 1\<rparr>
      \<lparr>vm_start = 0x1000, vm_pgoff = 0, vm_flags = 0x3, vm_mm = 7,
       vm_ops = None, vm_private_data = None\<rparr>) = - 22"
  using sgx_virt_epc_mmap_contract [of "\<lparr>page_array = [], mm = 7\<rparr>" "\<lparr>private_data = 1\<rparr>"
      "\<lparr>vm_start = 0x1000, vm_pgoff = 0, vm_flags = 0x8, vm_mm = 7,
        vm_ops = None, vm_private_data = None\<rparr>"]
    sgx_virt_epc_mmap_contract [of "\<lparr>page_array = [], mm = 7\<rparr>" "\<lparr>private_data = 1\<rparr>"
      "\<lparr>vm_start = 0x1000, vm_pgoff = 0, vm_flags = 0x8, vm_mm = 9,
        vm_ops = None, vm_private_data = None\<rparr>"]
    sgx_virt_epc_mmap_contract [of "\<lparr>page_array = [], mm = 7\<rparr>" "\<lparr>private_data = 1\<rparr>"
      "\<lparr>vm_start = 0x1000, vm_pgoff = 0, vm_flags = 0x3, vm_mm = 7,
        vm_ops = None, vm_private_data = None\<rparr>"]
  by (simp add: EINVAL_def VM_SHARED_def VM_PFNMAP_def VM_IO_def VM_DONTDUMP_def)

subsection \<open>Fault handler\<close>


lemma xa_load_store: "xa_load (xa_store xa i p) j = (if j = i then Some p else xa_load xa j)"
  by (induction xa i p rule: xa_store.induct) (auto simp: xa_load_def)

lemma xa_load_erase: "xa_load (xa_erase xa i) j = (if j = i then None else xa_load xa j)"
  by (induction xa) (auto simp: xa_load_def xa_erase_def)

lemma xa_load_None_iff: "xa_load xa i = None \<longleftrightarrow> i \<notin> fst ` set xa"
  by (simp add: xa_load_def map_of_eq_None_iff)

lemma xa_erase_absent: "xa_load xa i = None \<Longrightarrow> xa_erase xa i = xa"
  by (induction xa) (auto simp: xa_load_def xa_erase_def split: if_splits)

lemma xa_erase_store_absent: "xa_load xa i = None \<Longrightarrow> xa_erase (xa_store xa i p) i = xa"
proof (induction xa i p rule: xa_store.induct)
  case (1 index p)
  then show ?case by (simp add: xa_erase_def)
next
  case (2 k q xa index p)
  from 2 have ne: "index \<noteq> k" and ab: "xa_load xa index = None"
    by (auto simp: xa_load_def split: if_splits)
  show ?case
  proof (cases "index < k")
    case True
    have "xa_erase ((k, q) # xa) index = (k, q) # xa"
      using "2.prems" by (rule xa_erase_absent)
    with True ne show ?thesis by (simp add: xa_erase_def)
  next
    case False
    with ne ab "2.IH" show ?thesis by (simp add: xa_erase_def)
  qed
qed

lemma fault_present:
  "xa_load (page_array s) (sgx_virt_epc_calc_index vma addr) \<noteq> None
   \<Longrightarrow> sgx_virt_epc_fault_inner env orc vma addr s = (0, s)"
  by (auto simp: sgx_virt_epc_fault_inner_def)

lemma fault_errs:
  assumes "xa_load (page_array s) (sgx_virt_epc_calc_index vma addr) = None"
    and "alloc_result orc = Inr p"
  shows "store_result orc \<noteq> 0 \<Longrightarrow>
           sgx_virt_epc_fault_inner env orc vma addr s =
             (store_result orc,
              s\<lparr>alloc_pages := alloc_pages s @ [p], free_pages := free_pages s @ [p]\<rparr>)"
    and "store_result orc = 0 \<Longrightarrow> insert_result orc \<noteq> VM_FAULT_NOPAGE \<Longrightarrow>
           sgx_virt_epc_fault_inner env orc vma addr s =
             (- EFAULT,
              s\<lparr>alloc_pages := alloc_pages s @ [p], free_pages := free_pages s @ [p],
                pfn_inserts := pfn_inserts s @
                  [(vma, addr, PFN_DOWN (sgx_get_epc_phys_addr env p), insert_result orc)]\<rparr>)"
  using assms
  by (auto simp: sgx_virt_epc_fault_inner_def sgx_free_epc_page_def vmf_insert_pfn_def
      xa_erase_store_absent)

lemma installed_at_upd [simp]:
  "installed_at (s\<lparr>mmap_lock_held := b\<rparr>) i = installed_at s i"
  "installed_at (s\<lparr>alloc_pages := a\<rparr>) i = installed_at s i"
  "installed_at (s\<lparr>free_pages := f\<rparr>) i = installed_at s i"
  "installed_at (s\<lparr>page_array := x\<rparr>) i = installed_at s i"
  by (simp_all add: installed_at_def)

lemma installed_at_snoc:
  "installed_at (s\<lparr>pfn_inserts := pfn_inserts s @ [(vma, addr, pfn, r)]\<rparr>) i =
     installed_at s i @ (if r = VM_FAULT_NOPAGE \<and> sgx_virt_epc_calc_index vma addr = i then [(vma, addr, pfn, r)] else [])"
  by (simp add: installed_at_def)

lemma install_inv_eq:
  "install_inv s \<Longrightarrow> (\<And>i. installed_at s' i = installed_at s i) \<Longrightarrow> page_array s' = page_array s
   \<Longrightarrow> install_inv s'"
  by (simp add: install_inv_def)

lemma install_inv_inner:
  assumes "install_inv s"
  shows "install_inv (snd (sgx_virt_epc_fault_inner env orc vma addr s))"
proof (cases "xa_load (page_array s) (sgx_virt_epc_calc_index vma addr)")
  case (Some p)
  then show ?thesis using assms by (simp add: fault_present)
next
  case None
  show ?thesis
  proof (cases "alloc_result orc")
    case (Inl e)
    with None assms show ?thesis by (simp add: sgx_virt_epc_fault_inner_def)
  next
    case (Inr p)
    show ?thesis
    proof (cases "store_result orc = 0")
      case False
      show ?thesis
        by (simp only: fault_errs(1) [OF None Inr False] snd_conv)
           (rule install_inv_eq [OF assms], simp_all)
    next
      case True
      show ?thesis
      proof (cases "insert_result orc = VM_FAULT_NOPAGE")
        case False
        show ?thesis
          by (simp only: fault_errs(2) [OF None Inr True False] snd_conv)
             (rule install_inv_eq [OF assms], simp_all add: installed_at_def False)
      next
        case ok: True
        let ?i = "sgx_virt_epc_calc_index vma addr"
        let ?pfn = "PFN_DOWN (sgx_get_epc_phys_addr env p)"
        let ?s' = "s\<lparr>alloc_pages := alloc_pages s @ [p],
                      page_array := xa_store (page_array s) ?i p,
                      pfn_inserts := pfn_inserts s @ [(vma, addr, ?pfn, insert_result orc)]\<rparr>"
        have res: "sgx_virt_epc_fault_inner env orc vma addr s = (0, ?s')"
          using None Inr True ok
          by (simp add: sgx_virt_epc_fault_inner_def vmf_insert_pfn_def)
        have zero: "installed_at s ?i = []"
        proof -
          have "length (installed_at s ?i) \<le> (if xa_load (page_array s) ?i = None then 0 else 1)"
            using assms unfolding install_inv_def by blast
          with None show ?thesis by simp
        qed
        have "length (installed_at ?s' j)
                \<le> (if xa_load (page_array ?s') j = None then 0 else 1)" for j
        proof (cases "j = ?i")
          case True
          then show ?thesis using zero ok by (simp add: installed_at_def xa_load_store)
        next
          case False
          have "installed_at ?s' j = installed_at s j"
            using False by (auto simp: installed_at_def)
          moreover have "xa_load (page_array ?s') j = xa_load (page_array s) j"
            using False by (simp add: xa_load_store)
          moreover have "length (installed_at s j) \<le> (if xa_load (page_array s) j = None then 0 else 1)"
            using assms unfolding install_inv_def by blast
          ultimately show ?thesis by simp
        qed
        then show ?thesis by (simp only: res snd_conv install_inv_def) blast
      qed
    qed
  qed
qed

lemma install_inv_fault:
  assumes "install_inv s"
  shows "install_inv (snd (sgx_virt_epc_fault env orc vmf s))"
proof -
  obtain ret s1 where r: "sgx_virt_epc_fault_inner env orc (vmf_vma vmf) (vmf_address vmf) s = (ret, s1)"
    by (cases "sgx_virt_epc_fault_inner env orc (vmf_vma vmf) (vmf_address vmf) s")
  have i1: "install_inv s1"
    using install_inv_inner [OF assms, of env orc "vmf_vma vmf" "vmf_address vmf"] r by simp
  have i2: "install_inv (s1\<lparr>mmap_lock_held := False\<rparr>)"
    by (rule install_inv_eq [OF i1]) simp_all
  show ?thesis
    using i1 i2 by (simp add: sgx_virt_epc_fault_def r)
qed

lemma install_inv_run: "install_inv s \<Longrightarrow> install_inv (fault_run env fs s)"
  by (induction fs arbitrary: s) (auto simp: install_inv_fault)

lemma fault_present_top:
  "xa_load (page_array s) (sgx_virt_epc_calc_index (vmf_vma vmf) (vmf_address vmf)) \<noteq> None
   \<Longrightarrow> sgx_virt_epc_fault env orc vmf s = (VM_FAULT_NOPAGE, s)"
  by (simp add: sgx_virt_epc_fault_def fault_present)

text \<open>
  The table of a freshly opened region is well formed, and faults keep it so; a well-formed
  table has distinct indices.
\<close>

lemma xa_wf_distinct: "xa_wf xa \<Longrightarrow> distinct (map fst xa)"
  unfolding xa_wf_def by (simp add: strict_sorted_iff)

lemma xa_store_keys: "fst ` set (xa_store xa i p) = insert i (fst ` set xa)"
  by (induction xa i p rule: xa_store.induct) auto

lemma xa_wf_store: "xa_wf xa \<Longrightarrow> xa_wf (xa_store xa i p)"
proof (induction xa i p rule: xa_store.induct)
  case (1 index p)
  then show ?case by (simp add: xa_wf_def)
next
  case (2 k q xa index p)
  from "2.prems" have tl: "xa_wf xa" and hd: "\<forall>x \<in> fst ` set xa. k < x"
    by (auto simp: xa_wf_def)
  show ?case
  proof (cases "index = k")
    case True
    with "2.prems" show ?thesis by (simp add: xa_wf_def)
  next
    case ne: False
    show ?thesis
    proof (cases "index < k")
      case True
      with "2.prems" ne show ?thesis by (auto simp: xa_wf_def)
    next
      case False
      with ne have gt: "k < index" by simp
      have "xa_wf (xa_store xa index p)" using "2.IH" ne False tl by simp
      moreover have "\<forall>x \<in> fst ` set (xa_store xa index p). k < x"
        using hd gt by (simp add: xa_store_keys)
      ultimately show ?thesis using ne False by (auto simp: xa_wf_def)
    qed
  qed
qed

lemma xa_wf_erase: "xa_wf xa \<Longrightarrow> xa_wf (xa_erase xa i)"
  unfolding xa_wf_def xa_erase_def by (induction xa) auto

lemma xa_wf_fault_inner:
  assumes "xa_wf (page_array s)"
  shows "xa_wf (page_array (snd (sgx_virt_epc_fault_inner env orc vma addr s)))"
  using assms
  by (auto simp: sgx_virt_epc_fault_inner_def Let_def sgx_free_epc_page_def vmf_insert_pfn_def
      xa_wf_store xa_wf_erase split: option.splits sum.splits)

lemma xa_wf_fault:
  assumes "xa_wf (page_array s)"
  shows "xa_wf (page_array (snd (sgx_virt_epc_fault env orc vmf s)))"
  using xa_wf_fault_inner [OF assms, of env orc "vmf_vma vmf" "vmf_address vmf"]
  by (auto simp: sgx_virt_epc_fault_def split: prod.splits)

lemma xa_wf_fault_run: "xa_wf (page_array s) \<Longrightarrow> xa_wf (page_array (fault_run env fs s))"
  by (induction fs arbitrary: s) (auto simp: xa_wf_fault)

lemma xa_wf_open: "xa_wf (page_array (sgx_virt_epc_open m s))"
  by (simp add: sgx_virt_epc_open_def xa_wf_def)

lemma install_inv_fresh: "pfn_inserts s = [] \<Longrightarrow> install_inv s"
  by (simp add: install_inv_def installed_at_def)

text \<open>
  C4. When the table already has an entry at the index of the faulting address, the fault
  handler returns 0 (the callback reports the fault as resolved) and leaves the whole
  state as it was: no page is allocated, the table is not written, no page frame is
  installed. Hence, over any sequence of faults from a state satisfying the invariant
  (one with no installation on record does), every index has at most one successful
  installation.
\<close>

theorem fault_on_resolved_index_is_noop:
  "(xa_load (page_array s) (sgx_virt_epc_calc_index (vmf_vma vmf) (vmf_address vmf)) \<noteq> None
      \<longrightarrow> sgx_virt_epc_fault_inner env orc (vmf_vma vmf) (vmf_address vmf) s = (0, s)
        \<and> sgx_virt_epc_fault env orc vmf s = (VM_FAULT_NOPAGE, s))
   \<and> (install_inv s
      \<longrightarrow> length (installed_at (fault_run env fs s) index) \<le> 1
        \<and> install_inv (fault_run env fs s))"
proof -
  have "length (installed_at (fault_run env fs s) index) \<le> 1" if "install_inv s"
  proof -
    have "install_inv (fault_run env fs s)"
      using that by (rule install_inv_run)
    then have "length (installed_at (fault_run env fs s) index)
        \<le> (if xa_load (page_array (fault_run env fs s)) index = None then 0 else 1)"
      unfolding install_inv_def by blast
    then show ?thesis by (simp split: if_splits)
  qed
  then show ?thesis
    by (simp add: fault_present fault_present_top install_inv_run)
qed

theorem fault_on_resolved_index_is_noop_witness:
  "xa_load (page_array (fault_run ex_env [(ex_orc, ex_vmf)] ex_sys)) 2 = Some 0x1040
   \<and> sgx_virt_epc_fault ex_env (ex_orc\<lparr>alloc_result := Inr 0x1060\<rparr>) ex_vmf
        (fault_run ex_env [(ex_orc, ex_vmf)] ex_sys)
       = (VM_FAULT_NOPAGE, fault_run ex_env [(ex_orc, ex_vmf)] ex_sys)
   \<and> alloc_pages (fault_run ex_env [(ex_orc, ex_vmf), (ex_orc\<lparr>alloc_result := Inr 0x1060\<rparr>, ex_vmf)] ex_sys)
       = [0x1040]
   \<and> install_inv ex_sys
   \<and> length (installed_at
        (fault_run ex_env [(ex_orc, ex_vmf), (ex_orc\<lparr>alloc_result := Inr 0x1060\<rparr>, ex_vmf)] ex_sys) 2) = 1"
proof -
  have idx: "sgx_virt_epc_calc_index (vmf_vma ex_vmf) (vmf_address ex_vmf) = 2"
    by (simp add: ex_vmf_def ex_vma_def sgx_virt_epc_calc_index_def PFN_DOWN_def PAGE_SHIFT_def)
  have inv: "install_inv ex_sys"
    by (simp add: install_inv_def installed_at_def ex_sys_def)
  have s1: "fault_run ex_env [(ex_orc, ex_vmf)] ex_sys
      = ex_sys\<lparr>alloc_pages := [0x1040], page_array := [(2, 0x1040)],
               pfn_inserts := [(ex_vma, 0x7002abc, 0x80002, VM_FAULT_NOPAGE)]\<rparr>"
    using idx
    by (simp add: sgx_virt_epc_fault_def sgx_virt_epc_fault_inner_def ex_orc_def xa_load_def
        vmf_insert_pfn_def ex_sys_def ex_vmf_def sgx_get_epc_phys_addr_def ex_env_def
        PFN_DOWN_def PAGE_SHIFT_def PAGE_SIZE_def sizeof_sgx_epc_page_def)
  have present: "xa_load (page_array (fault_run ex_env [(ex_orc, ex_vmf)] ex_sys))
      (sgx_virt_epc_calc_index (vmf_vma ex_vmf) (vmf_address ex_vmf)) \<noteq> None"
    by (simp only: s1 idx) (simp add: xa_load_def)
  have run2: "fault_run ex_env [(ex_orc, ex_vmf), (ex_orc\<lparr>alloc_result := Inr 0x1060\<rparr>, ex_vmf)] ex_sys
      = fault_run ex_env [(ex_orc\<lparr>alloc_result := Inr 0x1060\<rparr>, ex_vmf)]
          (fault_run ex_env [(ex_orc, ex_vmf)] ex_sys)"
    by simp
  from fault_on_resolved_index_is_noop
         [of "fault_run ex_env [(ex_orc, ex_vmf)] ex_sys" ex_vmf ex_env
             "ex_orc\<lparr>alloc_result := Inr 0x1060\<rparr>" "[]" 2]
       fault_on_resolved_index_is_noop
         [of ex_sys ex_vmf ex_env ex_orc
             "[(ex_orc, ex_vmf), (ex_orc\<lparr>alloc_result := Inr 0x1060\<rparr>, ex_vmf)]" 2]
       present inv
  show ?thesis
    apply (simp only: run2 s1)
    apply (simp add: xa_load_def installed_at_def ex_vma_def sgx_virt_epc_calc_index_def
        PFN_DOWN_def PAGE_SHIFT_def)
    done
qed

text \<open>
  C5. A fault on an absent index for which a page was allocated: if the table store fails,
  the handler returns the store's error, the page goes back to the page source and the
  table is not touched; if the page-frame installation does not answer
  \<open>VM_FAULT_NOPAGE\<close>, the handler returns \<open>-EFAULT\<close>, the entry just stored is
  erased and the page goes back to the page source. Either way the table is the one the
  call started with, so it has no entry at the index.
\<close>

theorem fault_error_paths_undo:
  assumes "xa_load (page_array s) (sgx_virt_epc_calc_index vma addr) = None"
    and "alloc_result orc = Inr p"
  shows "(store_result orc \<noteq> 0 \<longrightarrow>
            sgx_virt_epc_fault_inner env orc vma addr s =
              (store_result orc,
               s\<lparr>alloc_pages := alloc_pages s @ [p], free_pages := free_pages s @ [p]\<rparr>))
       \<and> (store_result orc = 0 \<and> insert_result orc \<noteq> VM_FAULT_NOPAGE \<longrightarrow>
            sgx_virt_epc_fault_inner env orc vma addr s =
              (- EFAULT,
               s\<lparr>alloc_pages := alloc_pages s @ [p], free_pages := free_pages s @ [p],
                 pfn_inserts := pfn_inserts s @
                   [(vma, addr, PFN_DOWN (sgx_get_epc_phys_addr env p), insert_result orc)]\<rparr>))
       \<and> (store_result orc \<noteq> 0 \<or> insert_result orc \<noteq> VM_FAULT_NOPAGE \<longrightarrow>
            fst (sgx_virt_epc_fault_inner env orc vma addr s) \<noteq> 0
            \<and> page_array (snd (sgx_virt_epc_fault_inner env orc vma addr s)) = page_array s
            \<and> xa_load (page_array (snd (sgx_virt_epc_fault_inner env orc vma addr s)))
                 (sgx_virt_epc_calc_index vma addr) = None
            \<and> free_pages (snd (sgx_virt_epc_fault_inner env orc vma addr s)) = free_pages s @ [p])"
proof -
  have a: "store_result orc \<noteq> 0 \<Longrightarrow>
            sgx_virt_epc_fault_inner env orc vma addr s =
              (store_result orc,
               s\<lparr>alloc_pages := alloc_pages s @ [p], free_pages := free_pages s @ [p]\<rparr>)"
    by (rule fault_errs(1) [OF assms])
  have b: "store_result orc = 0 \<Longrightarrow> insert_result orc \<noteq> VM_FAULT_NOPAGE \<Longrightarrow>
            sgx_virt_epc_fault_inner env orc vma addr s =
              (- EFAULT,
               s\<lparr>alloc_pages := alloc_pages s @ [p], free_pages := free_pages s @ [p],
                 pfn_inserts := pfn_inserts s @
                   [(vma, addr, PFN_DOWN (sgx_get_epc_phys_addr env p), insert_result orc)]\<rparr>)"
    by (rule fault_errs(2) [OF assms])
  show ?thesis
  proof (cases "store_result orc = 0")
    case False
    with a assms(1) show ?thesis by simp
  next
    case True
    show ?thesis
    proof (cases "insert_result orc = VM_FAULT_NOPAGE")
      case ok: True
      with True show ?thesis by simp
    next
      case False
      with True b assms(1) show ?thesis by (simp add: EFAULT_def)
    qed
  qed
qed

theorem fault_error_paths_undo_witness:
  "sgx_virt_epc_fault_inner ex_env (ex_orc\<lparr>store_result := - 12\<rparr>) ex_vma 0x7002abc ex_sys
     = (- 12, ex_sys\<lparr>alloc_pages := [0x1040], free_pages := [0x1040]\<rparr>)
   \<and> sgx_virt_epc_fault_inner ex_env (ex_orc\<lparr>insert_result := VM_FAULT_SIGBUS\<rparr>) ex_vma 0x7002abc ex_sys
     = (- 14, ex_sys\<lparr>alloc_pages := [0x1040], free_pages := [0x1040],
                     pfn_inserts := [(ex_vma, 0x7002abc, 0x80002, VM_FAULT_SIGBUS)]\<rparr>)"
proof -
  have absent: "xa_load (page_array ex_sys) (sgx_virt_epc_calc_index ex_vma 0x7002abc) = None"
    by (simp add: ex_sys_def xa_load_def)
  have pfn: "PFN_DOWN (sgx_get_epc_phys_addr ex_env 0x1040) = 0x80002"
    by (simp add: sgx_get_epc_phys_addr_def ex_env_def PFN_DOWN_def PAGE_SHIFT_def
        PAGE_SIZE_def sizeof_sgx_epc_page_def)
  from fault_error_paths_undo [OF absent, of "ex_orc\<lparr>store_result := - 12\<rparr>" "0x1040" ex_env]
       fault_error_paths_undo [OF absent, of "ex_orc\<lparr>insert_result := VM_FAULT_SIGBUS\<rparr>" "0x1040" ex_env]
  show ?thesis
    by (simp add: ex_orc_def pfn EFAULT_def VM_FAULT_SIGBUS_def VM_FAULT_NOPAGE_def ex_sys_def)
qed

text \<open>
  C9. When a signal is pending on the faulting thread, the fault callback answers
  \<open>VM_FAULT_NOPAGE\<close> whatever the fault resolution returned, and leaves the state as
  the resolution left it (the mapping lock is not dropped).
\<close>

theorem fault_with_signal_pending_is_nopage:
  "signal_pending orc \<Longrightarrow>
     sgx_virt_epc_fault env orc vmf s =
       (VM_FAULT_NOPAGE, snd (sgx_virt_epc_fault_inner env orc (vmf_vma vmf) (vmf_address vmf) s))"
  by (simp add: sgx_virt_epc_fault_def split: prod.splits)

theorem fault_with_signal_pending_is_nopage_witness:
  "signal_pending (ex_orc\<lparr>alloc_result := Inl (- ENOMEM), signal_pending := True\<rparr>)
   \<and> fst (sgx_virt_epc_fault_inner ex_env
            (ex_orc\<lparr>alloc_result := Inl (- ENOMEM), signal_pending := True\<rparr>)
            (vmf_vma ex_vmf) (vmf_address ex_vmf) ex_sys) = - ENOMEM
   \<and> sgx_virt_epc_fault ex_env (ex_orc\<lparr>alloc_result := Inl (- ENOMEM), signal_pending := True\<rparr>)
        ex_vmf ex_sys = (VM_FAULT_NOPAGE, ex_sys)
   \<and> sgx_virt_epc_fault ex_env (ex_orc\<lparr>alloc_result := Inl (- ENOMEM)\<rparr>)
        ex_vmf ex_sys = (VM_FAULT_SIGBUS, ex_sys)"
proof -
  have inner: "sgx_virt_epc_fault_inner ex_env (ex_orc\<lparr>alloc_result := Inl (- ENOMEM), signal_pending := b\<rparr>)
            (vmf_vma ex_vmf) (vmf_address ex_vmf) ex_sys = (- ENOMEM, ex_sys)" for b
    by (simp add: sgx_virt_epc_fault_inner_def ex_sys_def xa_load_def)
  have plain: "sgx_virt_epc_fault ex_env (ex_orc\<lparr>alloc_result := Inl (- ENOMEM)\<rparr>)
        ex_vmf ex_sys = (VM_FAULT_SIGBUS, ex_sys)"
    using inner [of False]
    by (simp add: sgx_virt_epc_fault_def ex_orc_def ENOMEM_def EBUSY_def)
  from fault_with_signal_pending_is_nopage
         [of "ex_orc\<lparr>alloc_result := Inl (- ENOMEM), signal_pending := True\<rparr>" ex_env ex_vmf ex_sys]
  show ?thesis
    by (simp add: inner plain)
qed

subsection \<open>Debug access handler\<close>

declare sgx_virt_epc_access_loop.simps [simp del]

lemma access_loop_exit:
  "\<not> (i < len \<and> ret = 0) \<Longrightarrow>
     sgx_virt_epc_access_loop env vma start len wr i cnt index data ret buf s =
       (if ret \<noteq> 0 then - EIO else i, buf, s)"
  by (subst sgx_virt_epc_access_loop.simps) auto

lemma access_loop_missing:
  "i < len \<Longrightarrow> ret = 0 \<Longrightarrow> xa_load (page_array s) (access_index vma start i cnt index) = None \<Longrightarrow>
     sgx_virt_epc_access_loop env vma start len wr i cnt index data ret buf s = (- EIO, buf, s)"
  by (subst sgx_virt_epc_access_loop.simps) (simp add: access_index_def Let_def)

lemma access_loop_step:
  "i < len \<Longrightarrow> ret = 0 \<Longrightarrow> xa_load (page_array s) (access_index vma start i cnt index) = Some pg \<Longrightarrow>
   access_chunk env wr (access_ptr env pg start i) (access_offset start i) (access_cnt start len i)
     i ret data buf s = (ret1, data1, buf1, s1) \<Longrightarrow>
     sgx_virt_epc_access_loop env vma start len wr i cnt index data ret buf s =
       sgx_virt_epc_access_loop env vma start len wr (i + access_cnt start len i)
         (access_cnt start len i) (access_index vma start i cnt index) data1 ret1 buf1 s1"
  by (subst sgx_virt_epc_access_loop.simps)
     (simp add: access_index_def access_ptr_def access_offset_def access_cnt_def Let_def)

lemma access_offset_range: "0 \<le> access_offset start i \<and> access_offset start i \<le> 7"
  using AND_upper2 [of 7 "uint (start + word_of_int i)"]
  by (simp add: access_offset_def uint_and)

lemma access_cnt_range:
  "i < len \<Longrightarrow> 1 \<le> access_cnt start len i \<and> access_cnt start len i \<le> len - i
    \<and> access_offset start i + access_cnt start len i \<le> 8"
  using access_offset_range [of start i] by (simp add: access_cnt_def)

text \<open>An induction rule for the loop in terms of the three cases above.\<close>

lemma access_loop_induct [case_names exit missing step]:
  fixes s :: "'h sgx_sys"
  assumes ex: "\<And>env vma start len wr i cnt index data ret buf (s :: 'h sgx_sys).
              \<not> (i < len \<and> ret = 0) \<Longrightarrow> P env vma start len wr i cnt index data ret buf s"
    and mi: "\<And>env vma start len wr i cnt index data buf (s :: 'h sgx_sys). i < len \<Longrightarrow>
              xa_load (page_array s) (access_index vma start i cnt index) = None \<Longrightarrow>
              P env vma start len wr i cnt index data 0 buf s"
    and st: "\<And>env vma start len wr i cnt index data buf (s :: 'h sgx_sys) pg ret1 data1 buf1 s1.
              i < len \<Longrightarrow>
              xa_load (page_array s) (access_index vma start i cnt index) = Some pg \<Longrightarrow>
              access_chunk env wr (access_ptr env pg start i) (access_offset start i)
                (access_cnt start len i) i 0 data buf s = (ret1, data1, buf1, s1) \<Longrightarrow>
              P env vma start len wr (i + access_cnt start len i) (access_cnt start len i)
                (access_index vma start i cnt index) data1 ret1 buf1 s1 \<Longrightarrow>
              P env vma start len wr i cnt index data 0 buf s"
  shows "P env vma start len wr i cnt index data ret buf s"
proof (induction env vma start len wr i cnt index data ret buf s
    rule: sgx_virt_epc_access_loop.induct)
  case (1 env vma start len wr i cnt index data ret buf s)
  show ?case
  proof (cases "i < len \<and> ret = 0")
    case False
    then show ?thesis by (rule ex)
  next
    case True
    then have lt: "i < len" and r0: "ret = 0" by simp_all
    show ?thesis
    proof (cases "xa_load (page_array s) (access_index vma start i cnt index)")
      case None
      with lt r0 show ?thesis using mi by simp
    next
      case (Some pg)
      obtain ret1 data1 buf1 s1 where ch:
        "access_chunk env wr (access_ptr env pg start i) (access_offset start i)
           (access_cnt start len i) i 0 data buf s = (ret1, data1, buf1, s1)"
        by (metis prod_cases4)
      have "P env vma start len wr (i + access_cnt start len i) (access_cnt start len i)
              (access_index vma start i cnt index) data1 ret1 buf1 s1"
        unfolding access_cnt_def access_offset_def access_index_def
      proof (rule "1.IH" [OF True refl refl _ refl refl refl refl])
        show "xa_load (page_array s)
               (if i = 0 \<or> PFN_DOWN (start + word_of_int i)
                     \<noteq> PFN_DOWN (start + word_of_int i - word_of_int cnt)
                then sgx_virt_epc_calc_index vma (start + word_of_int i) else index) = Some pg"
          using Some by (simp add: access_index_def)
        show "(ret1, data1, buf1, s1) =
              access_chunk env wr
                (sgx_get_epc_virt_addr env pg + (ALIGN_DOWN (start + word_of_int i) 8 AND NOT PAGE_MASK))
                (uint ((start + word_of_int i) AND 7))
                (min (8 - uint ((start + word_of_int i) AND 7)) (len - i)) i ret data buf s"
          using ch r0 by (simp add: access_ptr_def access_offset_def access_cnt_def)
        show "(data1, buf1, s1) = (data1, buf1, s1)" ..
        show "(buf1, s1) = (buf1, s1)" ..
      qed
      with lt Some ch r0 show ?thesis using st by simp
    qed
  qed
qed


lemma edbgwr_frame: "edbgwr env p d s = (r, s1) \<Longrightarrow> s1 = s\<lparr>epc_mem := epc_mem s1\<rparr>"
  by (auto simp: edbgwr_def split: if_splits)

lemma access_chunk_frame:
  "access_chunk env wr p offset cnt i ret data buf s = (r, d, b, s1) \<Longrightarrow> s1 = s\<lparr>epc_mem := epc_mem s1\<rparr>"
  by (auto simp: access_chunk_def Let_def split: prod.splits if_splits dest: edbgwr_frame)

lemma access_loop_frame:
  "snd (snd (sgx_virt_epc_access_loop env vma start len wr i cnt index data ret buf s))
     = s\<lparr>epc_mem := epc_mem (snd (snd (sgx_virt_epc_access_loop env vma start len wr i cnt index data ret buf s)))\<rparr>"
proof (induction env vma start len wr i cnt index data ret buf s rule: access_loop_induct)
  case (exit env vma start len wr i cnt index data ret buf s)
  then show ?case by (simp add: access_loop_exit)
next
  case (missing env vma start len wr i cnt index data buf s)
  then show ?case by (simp add: access_loop_missing)
next
  case (step env vma start len wr i cnt index data buf s pg ret1 data1 buf1 s1)
  have fr: "s1 = s\<lparr>epc_mem := epc_mem s1\<rparr>"
    using step(3) by (rule access_chunk_frame)
  have eq: "sgx_virt_epc_access_loop env vma start len wr i cnt index data 0 buf s =
      sgx_virt_epc_access_loop env vma start len wr (i + access_cnt start len i)
         (access_cnt start len i) (access_index vma start i cnt index) data1 ret1 buf1 s1"
    using step(1) step(2) step(3) by (simp add: access_loop_step)
  show ?case
    unfolding eq
    by (subst step.IH, subst fr) simp
qed



lemmas ex_access_defs = sgx_virt_epc_access_def ex_uninit_def ex_sys2_def ex_sys_def ex_env_rdfail_def
  ex_env_def ex_vma_def sgx_virt_epc_access_loop.simps access_chunk_def edbgrd_def edbgwr_def
  memcpy_def xa_load_def sgx_virt_epc_calc_index_def PFN_DOWN_def PAGE_SHIFT_def PAGE_SIZE_def
  PAGE_MASK_def ALIGN_DOWN_def sgx_get_epc_virt_addr_def sizeof_sgx_epc_page_def EIO_def Let_def


text \<open>
  C7. A debug access whose loop comes to look up an index with no table entry returns
  \<open>-EIO\<close> there, with the buffer and the state as they are at that point; this holds at
  the first chunk and at any later one. Whatever a debug access does, it leaves the table,
  the record of allocated pages and the record of installed page frames as they were.
\<close>

theorem access_to_absent_index_is_eio:
  "(i < len \<and> xa_load (page_array s) (access_index vma start i cnt index) = None \<longrightarrow>
      sgx_virt_epc_access_loop env vma start len wr i cnt index data 0 buf s = (- EIO, buf, s))
   \<and> (0 < len \<and> xa_load (page_array s) (sgx_virt_epc_calc_index vma start) = None \<longrightarrow>
      sgx_virt_epc_access env u vma start buf len wr s = (- EIO, buf, s))
   \<and> page_array (snd (snd (sgx_virt_epc_access env u vma start buf len wr s))) = page_array s
   \<and> alloc_pages (snd (snd (sgx_virt_epc_access env u vma start buf len wr s))) = alloc_pages s
   \<and> pfn_inserts (snd (snd (sgx_virt_epc_access env u vma start buf len wr s))) = pfn_inserts s"
proof -
  let ?r = "sgx_virt_epc_access env u vma start buf len wr s"
  have fr: "snd (snd ?r) = s\<lparr>epc_mem := epc_mem (snd (snd ?r))\<rparr>"
    unfolding sgx_virt_epc_access_def by (rule access_loop_frame)
  have f1: "page_array (snd (snd ?r)) = page_array s" by (subst fr) simp
  have f2: "alloc_pages (snd (snd ?r)) = alloc_pages s" by (subst fr) simp
  have f3: "pfn_inserts (snd (snd ?r)) = pfn_inserts s" by (subst fr) simp
  have first: "access_index vma start 0 (uninit_cnt u) (uninit_index u) = sgx_virt_epc_calc_index vma start"
    by (simp add: access_index_def)
  have a: "0 < len \<Longrightarrow> xa_load (page_array s) (sgx_virt_epc_calc_index vma start) = None \<Longrightarrow>
      ?r = (- EIO, buf, s)"
    unfolding sgx_virt_epc_access_def
    by (rule access_loop_missing) (simp_all add: first)
  show ?thesis
    using a f1 f2 f3 by (simp add: access_loop_missing)
qed

theorem access_to_absent_index_is_eio_witness:
  "sgx_virt_epc_access ex_env ex_uninit ex_vma 0x7002003 [0xFF] 1 True ex_sys = (- 5, [0xFF], ex_sys)
   \<and> fst (sgx_virt_epc_access ex_env ex_uninit ex_vma 0x7002ffc [1, 2, 3, 4, 5, 6, 7, 8, 9, 10] 10 True ex_sys2) = - 5
   \<and> page_array (snd (snd (sgx_virt_epc_access ex_env ex_uninit ex_vma 0x7002ffc
        [1, 2, 3, 4, 5, 6, 7, 8, 9, 10] 10 True ex_sys2))) = [(2, 0x1040)]
   \<and> alloc_pages (snd (snd (sgx_virt_epc_access ex_env ex_uninit ex_vma 0x7002ffc
        [1, 2, 3, 4, 5, 6, 7, 8, 9, 10] 10 True ex_sys2))) = []"
proof -
  have absent: "0 < (1::int) \<and> xa_load (page_array ex_sys) (sgx_virt_epc_calc_index ex_vma 0x7002003) = None"
    by (simp add: ex_sys_def xa_load_def)
  have later: "fst (sgx_virt_epc_access ex_env ex_uninit ex_vma 0x7002ffc
      [1, 2, 3, 4, 5, 6, 7, 8, 9, 10] 10 True ex_sys2) = - 5"
    by (simp add: ex_access_defs)
  from access_to_absent_index_is_eio [of 0 1 ex_sys ex_vma "0x7002003" 0 0 ex_env True "[]" "[0xFF]" ex_uninit]
       access_to_absent_index_is_eio [of 0 10 ex_sys2 ex_vma "0x7002ffc" 0 0 ex_env True "[]"
          "[1, 2, 3, 4, 5, 6, 7, 8, 9, 10]" ex_uninit]
       absent later
  show ?thesis
    by (simp add: EIO_def ex_sys2_def ex_sys_def)
qed


text \<open>
  Chunks start at byte 0 of the range and then at word boundaries: the offset within the
  word is the address modulo 8, a chunk that is not the last ends at the next boundary,
  and a failing chunk leaves the buffer and the state as they were.
\<close>

lemma int_and_7: "(k::int) AND 7 = k mod 8"
proof -
  have "k AND 7 = take_bit 3 k"
    by (simp add: take_bit_eq_mask mask_eq_exp_minus_1)
  then show ?thesis by (simp add: take_bit_eq_mod)
qed

lemma access_offset_mod: "access_offset start i = (uint start + i) mod 8"
proof -
  have "access_offset start i = uint (start + word_of_int i) mod 8"
    by (simp add: access_offset_def uint_and int_and_7)
  also have "\<dots> = ((uint start + i) mod 2 ^ 64) mod 8"
    by (simp add: uint_word_ariths uint_word_of_int mod_add_right_eq)
  also have "\<dots> = (uint start + i) mod 8"
    by (simp add: mod_mod_cancel)
  finally show ?thesis .
qed

lemma next_boundary_aligned:
  "access_offset start (i + (8 - access_offset start i)) = 0"
  unfolding access_offset_mod by presburger


lemma chunk_fail_unchanged:
  "access_chunk env wr p off c i 0 data buf s = (r, d, b, s1) \<Longrightarrow> r \<noteq> 0 \<Longrightarrow> b = buf \<and> s1 = s"
  by (auto simp: access_chunk_def edbgrd_def edbgwr_def Let_def split: if_splits prod.splits)








lemma memcpy_nth:
  "doff + n \<le> length dst \<Longrightarrow> soff + n \<le> length src \<Longrightarrow> k < length dst \<Longrightarrow>
     memcpy dst doff src soff n ! k
       = (if doff \<le> k \<and> k < doff + n then src ! (soff + (k - doff)) else dst ! k)"
proof -
  assume a: "doff + n \<le> length dst" and b: "soff + n \<le> length src" and c: "k < length dst"
  have l1: "length (take doff dst) = doff" using a by simp
  have l2: "length (take n (drop soff src)) = n" using b by simp
  show ?thesis
  proof (cases "k < doff")
    case True
    then show ?thesis using l1 by (simp add: memcpy_def nth_append)
  next
    case False
    show ?thesis
    proof (cases "k < doff + n")
      case True
      with False have "k - doff < n" by simp
      with False True l1 l2 b show ?thesis
        by (simp add: memcpy_def nth_append)
    next
      case nk: False
      have "memcpy dst doff src soff n ! k = drop (doff + n) dst ! (k - doff - n)"
        using False nk l1 l2 by (simp add: memcpy_def nth_append)
      also have "\<dots> = dst ! k"
        using nk a c by simp
      finally show ?thesis using nk by simp
    qed
  qed
qed

lemma memcpy_full_nth:
  "soff + n \<le> length src \<Longrightarrow> k < n \<Longrightarrow> memcpy dst 0 src soff n ! k = src ! (soff + k)"
  by (simp add: memcpy_def nth_append)

lemma word_off_back: "p + of_nat (unat (a - p)) = (a :: ulong)"
  by simp

lemma unat_lt8: "(x :: ulong) < 8 \<Longrightarrow> unat x < 8"
  by (simp add: word_less_nat_alt)

lemma rmw_chunk:
  assumes o0: "0 \<le> offset" and c0: "0 < cnt" and oc: "offset + cnt \<le> 8" and i0: "0 \<le> i"
    and bl: "nat i + nat cnt \<le> length buf"
    and rd: "cnt \<noteq> 8 \<longrightarrow> edbgrd_ret env p = 0" and wr: "edbgwr_ret env p = 0"
  shows "\<exists>data2. access_chunk env True p offset cnt i 0 data buf s =
     (0, data2, buf,
      s\<lparr>epc_mem := (\<lambda>a. if a - p < 8 \<and> nat offset \<le> unat (a - p) \<and> unat (a - p) < nat offset + nat cnt
                         then buf ! (nat i + (unat (a - p) - nat offset)) else epc_mem s a)\<rparr>)"
proof (cases "cnt = 8")
  case True
  with o0 oc have off: "offset = 0" by simp
  have "(\<lambda>a. if a - p < 8 then memcpy data 0 buf (nat i) 8 ! unat (a - p) else epc_mem s a)
      = (\<lambda>a. if a - p < 8 \<and> unat (a - p) < 8 then buf ! (nat i + unat (a - p)) else epc_mem s a)"
  proof
    fix a
    show "(if a - p < 8 then memcpy data 0 buf (nat i) 8 ! unat (a - p) else epc_mem s a)
        = (if a - p < 8 \<and> unat (a - p) < 8 then buf ! (nat i + unat (a - p)) else epc_mem s a)"
      using bl True unat_lt8 [of "a - p"] by (simp add: memcpy_full_nth)
  qed
  then show ?thesis
    unfolding off True using wr by (simp add: access_chunk_def edbgwr_def cong: if_cong)
next
  case False
  let ?d1 = "map (\<lambda>k. epc_mem s (p + of_nat k)) [0..<8]"
  let ?d2 = "memcpy ?d1 (nat offset) buf (nat i) (nat cnt)"
  have len: "length ?d1 = 8" by simp
  have "(\<lambda>a. if a - p < 8 then ?d2 ! unat (a - p) else epc_mem s a)
      = (\<lambda>a. if a - p < 8 \<and> nat offset \<le> unat (a - p) \<and> unat (a - p) < nat offset + nat cnt
                         then buf ! (nat i + (unat (a - p) - nat offset)) else epc_mem s a)"
  proof
    fix a
    show "(if a - p < 8 then ?d2 ! unat (a - p) else epc_mem s a)
      = (if a - p < 8 \<and> nat offset \<le> unat (a - p) \<and> unat (a - p) < nat offset + nat cnt
                         then buf ! (nat i + (unat (a - p) - nat offset)) else epc_mem s a)"
    proof (cases "a - p < 8")
      case False
      then show ?thesis by simp
    next
      case True
      then have k: "unat (a - p) < 8" by (rule unat_lt8)
      have "nat offset + nat cnt \<le> length ?d1" using o0 c0 oc by simp
      from memcpy_nth [OF this bl, of "unat (a - p)"] k
      have "?d2 ! unat (a - p) = (if nat offset \<le> unat (a - p) \<and> unat (a - p) < nat offset + nat cnt
         then buf ! (nat i + (unat (a - p) - nat offset)) else ?d1 ! unat (a - p))"
        by simp
      moreover have "?d1 ! unat (a - p) = epc_mem s a"
        using k by (simp del: upt_Suc add: word_off_back)
      ultimately show ?thesis using True by simp
    qed
  qed
  then show ?thesis
    using False rd wr by (simp add: access_chunk_def edbgwr_def edbgrd_def Let_def del: upt_Suc)
qed


lemma of_nat_lt8: "k < 8 \<Longrightarrow> (of_nat k :: ulong) < 8 \<and> unat (of_nat k :: ulong) = k"
proof -
  assume k: "k < 8"
  then have u: "unat (of_nat k :: ulong) = k"
    by (simp add: unat_of_nat)
  then show ?thesis
    using k by (simp add: word_less_nat_alt)
qed

lemma rmw_chunk_overlay:
  assumes o0: "0 \<le> offset" and c0: "0 < cnt" and oc: "offset + cnt \<le> 8" and i0: "0 \<le> i"
    and bl: "nat i + nat cnt \<le> length buf"
    and rd: "cnt \<noteq> 8 \<longrightarrow> edbgrd_ret env p = 0" and wr: "edbgwr_ret env p = 0"
  shows "\<exists>data2. access_chunk env True p offset cnt i 0 data buf s =
     (0, data2, buf,
      s\<lparr>epc_mem := overlay (epc_mem s) p (nat offset) (take (nat cnt) (drop (nat i) buf))\<rparr>)"
proof -
  have len: "length (take (nat cnt) (drop (nat i) buf)) = nat cnt"
    using bl by simp
  have "overlay (epc_mem s) p (nat offset) (take (nat cnt) (drop (nat i) buf))
      = (\<lambda>a. if a - p < 8 \<and> nat offset \<le> unat (a - p) \<and> unat (a - p) < nat offset + nat cnt
                         then buf ! (nat i + (unat (a - p) - nat offset)) else epc_mem s a)"
  proof
    fix a
    show "overlay (epc_mem s) p (nat offset) (take (nat cnt) (drop (nat i) buf)) a
      = (if a - p < 8 \<and> nat offset \<le> unat (a - p) \<and> unat (a - p) < nat offset + nat cnt
                         then buf ! (nat i + (unat (a - p) - nat offset)) else epc_mem s a)"
    proof (cases "a - p < 8 \<and> nat offset \<le> unat (a - p) \<and> unat (a - p) < nat offset + nat cnt")
      case False
      then show ?thesis unfolding overlay_def len by (simp only: if_False)
    next
      case True
      then have k: "unat (a - p) - nat offset < nat cnt" by linarith
      have "take (nat cnt) (drop (nat i) buf) ! (unat (a - p) - nat offset)
          = buf ! (nat i + (unat (a - p) - nat offset))"
        using k bl by simp
      then show ?thesis unfolding overlay_def len using True by (simp only: if_True)
    qed
  qed
  with rmw_chunk [OF o0 c0 oc i0 bl rd wr, of data s] show ?thesis by simp
qed

lemma write_chunk_step:
  assumes i0: "0 \<le> i" and il: "i < len" and bl: "nat len \<le> length buf"
    and pg: "xa_load (page_array s) (access_index vma start i cnt index) = Some pg"
    and rd: "edbgrd_ret env (access_ptr env pg start i) = 0"
    and wr: "edbgwr_ret env (access_ptr env pg start i) = 0"
  shows "\<exists>data2. sgx_virt_epc_access_loop env vma start len True i cnt index data 0 buf s =
      sgx_virt_epc_access_loop env vma start len True (i + access_cnt start len i)
        (access_cnt start len i) (access_index vma start i cnt index) data2 0 buf
        (s\<lparr>epc_mem := overlay (epc_mem s) (access_ptr env pg start i) (nat (access_offset start i))
                          (take (nat (access_cnt start len i)) (drop (nat i) buf))\<rparr>)"
proof -
  have cr: "1 \<le> access_cnt start len i" "access_cnt start len i \<le> len - i"
    "access_offset start i + access_cnt start len i \<le> 8"
    using access_cnt_range [OF il, of start] by simp_all
  have o0: "0 \<le> access_offset start i" using access_offset_range [of start i] by simp
  have c0: "0 < access_cnt start len i" using cr(1) by simp
  have b: "nat i + nat (access_cnt start len i) \<le> length buf"
    using cr(2) i0 il bl by linarith
  from rmw_chunk_overlay [OF o0 c0 cr(3) i0 b _ wr, of data s] rd
  obtain data2 where ch: "access_chunk env True (access_ptr env pg start i) (access_offset start i)
        (access_cnt start len i) i 0 data buf s =
     (0, data2, buf,
      s\<lparr>epc_mem := overlay (epc_mem s) (access_ptr env pg start i) (nat (access_offset start i))
                          (take (nat (access_cnt start len i)) (drop (nat i) buf))\<rparr>)"
    by blast
  from access_loop_step [OF il refl pg ch] show ?thesis by blast
qed

lemma write_chunk_outcome:
  assumes o0: "0 \<le> offset" and c0: "0 < cnt" and oc: "offset + cnt \<le> 8" and i0: "0 \<le> i"
    and bl: "nat i + nat cnt \<le> length buf"
    and ch: "access_chunk env True p offset cnt i 0 data buf s = (r, d, b, s1)"
  shows "b = buf \<and> (r \<noteq> 0 \<longrightarrow> s1 = s)
       \<and> (r = 0 \<longrightarrow> s1 = s\<lparr>epc_mem := overlay (epc_mem s) p (nat offset)
                                         (take (nat cnt) (drop (nat i) buf))\<rparr>)"
proof (cases "r = 0")
  case False
  with chunk_fail_unchanged [OF ch False] show ?thesis by simp
next
  case True
  have rd: "cnt \<noteq> 8 \<longrightarrow> edbgrd_ret env p = 0"
    using ch True
    by (auto simp: access_chunk_def edbgrd_def Let_def split: if_splits prod.splits)
  have wr: "edbgwr_ret env p = 0"
    using ch True
    by (auto simp: access_chunk_def edbgrd_def edbgwr_def Let_def split: if_splits prod.splits)
  from rmw_chunk_overlay [OF o0 c0 oc i0 bl rd wr, of data s] ch True
  show ?thesis by auto
qed

lemma overlay_changed:
  "overlay m p off bytes a \<noteq> m a \<Longrightarrow> a - p < 8 \<and> off \<le> unat (a - p) \<and> unat (a - p) < off + length bytes"
  by (auto simp: overlay_def split: if_splits)

lemma partial_write_touches_only_its_bytes:
  assumes c0: "0 < cnt" and c8: "cnt < 8" and bl: "nat cnt \<le> length buf"
    and ne: "epc_mem (snd (snd (sgx_virt_epc_access env u vma start buf cnt True s))) a \<noteq> epc_mem s a"
  shows "(\<exists>pga. xa_load (page_array s) (sgx_virt_epc_calc_index vma start) = Some pga
            \<and> a - access_ptr env pga start 0 < 8
            \<and> nat (access_offset start 0) \<le> unat (a - access_ptr env pga start 0)
            \<and> unat (a - access_ptr env pga start 0) < nat (access_offset start 0) + nat cnt)
       \<or> (\<exists>pgb. 8 < access_offset start 0 + cnt
            \<and> xa_load (page_array s)
                 (access_index vma start (8 - access_offset start 0) (8 - access_offset start 0)
                    (sgx_virt_epc_calc_index vma start)) = Some pgb
            \<and> a - access_ptr env pgb start (8 - access_offset start 0) < 8
            \<and> unat (a - access_ptr env pgb start (8 - access_offset start 0))
                 < nat (cnt - (8 - access_offset start 0)))"
proof -
  let ?o = "access_offset start 0"
  let ?c1 = "access_cnt start cnt 0"
  let ?ix = "sgx_virt_epc_calc_index vma start"
  let ?R = "sgx_virt_epc_access env u vma start buf cnt True s"
  have ix: "access_index vma start 0 (uninit_cnt u) (uninit_index u) = ?ix"
    by (simp add: access_index_def)
  have o0: "0 \<le> ?o" "?o \<le> 7" using access_offset_range [of start 0] by simp_all
  have cr: "1 \<le> ?c1" "?c1 \<le> cnt" "?o + ?c1 \<le> 8"
    using access_cnt_range [OF c0, of start] by simp_all
  show ?thesis
  proof (cases "xa_load (page_array s) ?ix")
    case None
    have "?R = (- EIO, buf, s)"
      unfolding sgx_virt_epc_access_def using c0 None by (simp add: access_loop_missing ix)
    with ne show ?thesis by simp
  next
    case (Some pga)
    let ?p = "access_ptr env pga start 0"
    obtain r1 d1 b1 s1 where ch: "access_chunk env True ?p ?o ?c1 0 0 (uninit_data u) buf s = (r1, d1, b1, s1)"
      by (metis prod_cases4)
    have bl1: "nat 0 + nat ?c1 \<le> length buf" using cr(2) bl by simp
    note oc1 = write_chunk_outcome [OF o0(1) _ cr(3) order_refl bl1 ch]
    have c1pos: "0 < ?c1" using cr(1) by simp
    have b1: "b1 = buf" using oc1 [OF c1pos] by simp
    let ?m1 = "overlay (epc_mem s) ?p (nat ?o) (take (nat ?c1) buf)"
    have in1: "a - ?p < 8 \<and> nat ?o \<le> unat (a - ?p) \<and> unat (a - ?p) < nat ?o + nat cnt"
      if "?m1 a \<noteq> epc_mem s a"
    proof -
      have l: "length (take (nat ?c1) buf) = nat ?c1" using cr(2) bl by simp
      from overlay_changed [OF that] l cr(2) show ?thesis by auto
    qed
    have step1: "sgx_virt_epc_access_loop env vma start cnt True 0 (uninit_cnt u) (uninit_index u)
          (uninit_data u) 0 buf s =
        sgx_virt_epc_access_loop env vma start cnt True (0 + ?c1) ?c1
          (access_index vma start 0 (uninit_cnt u) (uninit_index u)) d1 r1 b1 s1"
      by (rule access_loop_step [OF c0 refl _ ch]) (simp add: ix Some)
    show ?thesis
    proof (cases "r1 = 0")
      case False
      have "s1 = s" using oc1 [OF c1pos] False by simp
      then have "?R = (- EIO, buf, s)"
        unfolding sgx_virt_epc_access_def step1 using False b1 by (simp add: access_loop_exit)
      with ne show ?thesis by simp
    next
      case True
      have s1: "s1 = s\<lparr>epc_mem := ?m1\<rparr>" using oc1 [OF c1pos] True by simp
      show ?thesis
      proof (cases "?o + cnt \<le> 8")
        case single: True
        have "?c1 = cnt" using single by (simp add: access_cnt_def)
        then have "?R = (cnt, buf, s\<lparr>epc_mem := ?m1\<rparr>)"
          unfolding sgx_virt_epc_access_def step1 using True b1 s1 by (simp add: access_loop_exit)
        with ne have "?m1 a \<noteq> epc_mem s a" by simp
        from in1 [OF this] Some show ?thesis by blast
      next
        case False
        then have st: "8 < ?o + cnt" by simp
        have c1: "?c1 = 8 - ?o" using st by (simp add: access_cnt_def)
        have c1lt: "?c1 < cnt" using c1 st by simp
        have off2: "access_offset start ?c1 = 0"
          unfolding c1 using next_boundary_aligned [of start 0] by simp
        have cn2: "access_cnt start cnt ?c1 = cnt - ?c1"
          using c8 c1lt cr(1) by (simp add: access_cnt_def [of start cnt ?c1] off2)
        let ?ix2 = "access_index vma start ?c1 ?c1 ?ix"
        show ?thesis
        proof (cases "xa_load (page_array s) ?ix2")
          case None
          then have "xa_load (page_array s1) ?ix2 = None" using s1 by simp
          then have "?R = (- EIO, buf, s1)"
            unfolding sgx_virt_epc_access_def step1 using True b1 c1lt
            by (simp add: access_loop_missing ix)
          with ne s1 have "?m1 a \<noteq> epc_mem s a" by simp
          from in1 [OF this] Some show ?thesis by blast
        next
          case pgb: (Some pgb)
          let ?p2 = "access_ptr env pgb start ?c1"
          have pgb': "xa_load (page_array s1) ?ix2 = Some pgb" using pgb s1 by simp
          obtain r2 d2 b2 s2 where ch2: "access_chunk env True ?p2 (access_offset start ?c1)
              (access_cnt start cnt ?c1) ?c1 0 d1 buf s1 = (r2, d2, b2, s2)"
            by (metis prod_cases4)
          have bl2: "nat ?c1 + nat (cnt - ?c1) \<le> length buf" using bl cr(1) c1lt by simp
          have "b2 = buf \<and> (r2 \<noteq> 0 \<longrightarrow> s2 = s1)
              \<and> (r2 = 0 \<longrightarrow> s2 = s1\<lparr>epc_mem := overlay (epc_mem s1) ?p2 (nat 0)
                                         (take (nat (cnt - ?c1)) (drop (nat ?c1) buf))\<rparr>)"
          proof (rule write_chunk_outcome [where data = d1 and env = env and d = d2])
            show "(0::int) \<le> 0" by simp
            show "0 < cnt - ?c1" using c1lt by simp
            show "0 + (cnt - ?c1) \<le> 8" using c8 cr(1) by simp
            show "0 \<le> ?c1" using cr(1) by simp
            show "nat ?c1 + nat (cnt - ?c1) \<le> length buf" by (rule bl2)
            show "access_chunk env True ?p2 0 (cnt - ?c1) ?c1 0 d1 buf s1 = (r2, d2, b2, s2)"
              using ch2 by (simp only: off2 cn2)
          qed
          then have o2: "b2 = buf" "r2 \<noteq> 0 \<Longrightarrow> s2 = s1"
            "r2 = 0 \<Longrightarrow> s2 = s1\<lparr>epc_mem := overlay (epc_mem s1) ?p2 0
                                         (take (nat (cnt - ?c1)) (drop (nat ?c1) buf))\<rparr>"
            by simp_all
          have step2: "sgx_virt_epc_access_loop env vma start cnt True (0 + ?c1) ?c1
                (access_index vma start 0 (uninit_cnt u) (uninit_index u)) d1 r1 b1 s1 =
              sgx_virt_epc_access_loop env vma start cnt True (?c1 + access_cnt start cnt ?c1)
                (access_cnt start cnt ?c1) ?ix2 d2 r2 b2 s2"
            unfolding ix b1 True
            by (simp only: add_0) (rule access_loop_step [OF c1lt refl pgb' ch2])
          have fin: "?R = (if r2 \<noteq> 0 then - EIO else cnt, buf, s2)"
            unfolding sgx_virt_epc_access_def step1 step2 cn2 o2(1)
            by (simp add: access_loop_exit)
          show ?thesis
          proof (cases "r2 = 0")
            case False
            with fin o2(2) ne s1 have "?m1 a \<noteq> epc_mem s a" by simp
            from in1 [OF this] Some show ?thesis by blast
          next
            case r2: True
            let ?m2 = "overlay ?m1 ?p2 0 (take (nat (cnt - ?c1)) (drop (nat ?c1) buf))"
            have "epc_mem s2 = ?m2" using o2(3) [OF r2] s1 by simp
            with fin ne have ne2: "?m2 a \<noteq> epc_mem s a" by simp
            show ?thesis
            proof (cases "?m2 a = ?m1 a")
              case True
              with ne2 have "?m1 a \<noteq> epc_mem s a" by simp
              from in1 [OF this] Some show ?thesis by blast
            next
              case False
              have l: "length (take (nat (cnt - ?c1)) (drop (nat ?c1) buf)) = nat (cnt - ?c1)"
                using bl2 by simp
              from overlay_changed [OF False] l
              have "a - ?p2 < 8 \<and> unat (a - ?p2) < nat (cnt - ?c1)" by simp
              with st pgb c1 show ?thesis by auto
            qed
          qed
        qed
      qed
    qed
  qed
qed

text \<open>
  C6, with the example as the code computes it. A debug write of \<open>cnt < 8\<close> bytes (the
  pages are in the table, \<^verbatim>\<open>EDBGRD\<close> and \<^verbatim>\<open>EDBGWR\<close> succeed, the buffer holds \<open>cnt\<close>
  bytes) returns \<open>cnt\<close>, leaves the buffer as it was and changes the enclave memory only
  in the bytes it was asked to write. When the range stays within one naturally aligned
  word, the bytes \<open>[offset, offset + cnt)\<close> of that word get the buffer's bytes and the
  other bytes of the word, and every other address, keep their value. When the range
  runs over the end of the word, the bytes \<open>[offset, 8)\<close> of the first word and the
  first \<open>cnt - (8 - offset)\<close> bytes of the next word get the buffer's bytes, and every
  other byte of both words, and every other address, keeps its value. More generally
  every chunk of a write of any length, at any point of the loop, lays its bytes of the
  buffer over the word and leaves the rest of the memory as it was. Last, whatever the
  outcome of a write of \<open>cnt < 8\<close> bytes (a missing page, a failing \<^verbatim>\<open>EDBGRD\<close> or
  \<^verbatim>\<open>EDBGWR\<close> on either word, or success), an address whose byte has changed lies in
  the range \<open>[offset, offset + cnt)\<close> of the first word or among the first
  \<open>cnt - (8 - offset)\<close> bytes of the next one.
\<close>

theorem partial_write_is_read_modify_write:
  "(0 < cnt \<and> cnt < 8 \<and> nat cnt \<le> length buf
      \<and> xa_load (page_array s) (sgx_virt_epc_calc_index vma start) = Some pg
      \<and> edbgrd_ret env (access_ptr env pg start 0) = 0
      \<and> edbgwr_ret env (access_ptr env pg start 0) = 0 \<longrightarrow>
      (access_offset start 0 + cnt \<le> 8 \<longrightarrow>
         sgx_virt_epc_access env u vma start buf cnt True s =
           (cnt, buf,
            s\<lparr>epc_mem := (\<lambda>a. if a - access_ptr env pg start 0 < 8
                                   \<and> nat (access_offset start 0) \<le> unat (a - access_ptr env pg start 0)
                                   \<and> unat (a - access_ptr env pg start 0) < nat (access_offset start 0) + nat cnt
                               then buf ! (unat (a - access_ptr env pg start 0) - nat (access_offset start 0))
                               else epc_mem s a)\<rparr>)
       \<and> (\<forall>k<8. epc_mem (snd (snd (sgx_virt_epc_access env u vma start buf cnt True s)))
                    (access_ptr env pg start 0 + of_nat k)
                  = (if nat (access_offset start 0) \<le> k \<and> k < nat (access_offset start 0) + nat cnt
                     then buf ! (k - nat (access_offset start 0))
                     else epc_mem s (access_ptr env pg start 0 + of_nat k))))
    \<and> (8 < access_offset start 0 + cnt
        \<and> xa_load (page_array s)
             (access_index vma start (8 - access_offset start 0) (8 - access_offset start 0)
                (sgx_virt_epc_calc_index vma start)) = Some pgn
        \<and> edbgrd_ret env (access_ptr env pgn start (8 - access_offset start 0)) = 0
        \<and> edbgwr_ret env (access_ptr env pgn start (8 - access_offset start 0)) = 0 \<longrightarrow>
         sgx_virt_epc_access env u vma start buf cnt True s =
           (cnt, buf,
            s\<lparr>epc_mem :=
                overlay
                  (overlay (epc_mem s) (access_ptr env pg start 0) (nat (access_offset start 0))
                     (take (nat (8 - access_offset start 0)) buf))
                  (access_ptr env pgn start (8 - access_offset start 0)) 0
                  (take (nat (cnt - (8 - access_offset start 0)))
                     (drop (nat (8 - access_offset start 0)) buf))\<rparr>)
       \<and> (\<forall>a. \<not> (a - access_ptr env pg start 0 < 8
                    \<and> nat (access_offset start 0) \<le> unat (a - access_ptr env pg start 0))
              \<and> \<not> (a - access_ptr env pgn start (8 - access_offset start 0) < 8
                    \<and> unat (a - access_ptr env pgn start (8 - access_offset start 0))
                        < nat (cnt - (8 - access_offset start 0))) \<longrightarrow>
              epc_mem (snd (snd (sgx_virt_epc_access env u vma start buf cnt True s))) a = epc_mem s a)
       \<and> (\<forall>k < nat (cnt - (8 - access_offset start 0)).
              epc_mem (snd (snd (sgx_virt_epc_access env u vma start buf cnt True s)))
                (access_ptr env pgn start (8 - access_offset start 0) + of_nat k)
              = buf ! (nat (8 - access_offset start 0) + k))
       \<and> (\<forall>k<8. nat (access_offset start 0) \<le> k
              \<and> \<not> (access_ptr env pg start 0 + of_nat k
                      - access_ptr env pgn start (8 - access_offset start 0) < 8
                    \<and> unat (access_ptr env pg start 0 + of_nat k
                             - access_ptr env pgn start (8 - access_offset start 0))
                        < nat (cnt - (8 - access_offset start 0))) \<longrightarrow>
              epc_mem (snd (snd (sgx_virt_epc_access env u vma start buf cnt True s)))
                (access_ptr env pg start 0 + of_nat k)
              = buf ! (k - nat (access_offset start 0)))))
   \<and> (0 \<le> i \<and> i < len \<and> nat len \<le> length bufw
        \<and> xa_load (page_array sw) (access_index vma start i c index) = Some pgw
        \<and> edbgrd_ret env (access_ptr env pgw start i) = 0
        \<and> edbgwr_ret env (access_ptr env pgw start i) = 0 \<longrightarrow>
        (\<exists>data2. sgx_virt_epc_access_loop env vma start len True i c index data 0 bufw sw =
           sgx_virt_epc_access_loop env vma start len True (i + access_cnt start len i)
             (access_cnt start len i) (access_index vma start i c index) data2 0 bufw
             (sw\<lparr>epc_mem := overlay (epc_mem sw) (access_ptr env pgw start i)
                                (nat (access_offset start i))
                                (take (nat (access_cnt start len i)) (drop (nat i) bufw))\<rparr>)))
   \<and> (0 < cnt \<and> cnt < 8 \<and> nat cnt \<le> length buf \<longrightarrow>
        (\<forall>a. epc_mem (snd (snd (sgx_virt_epc_access env u vma start buf cnt True s))) a = epc_mem s a
           \<or> (\<exists>pga. xa_load (page_array s) (sgx_virt_epc_calc_index vma start) = Some pga
                \<and> a - access_ptr env pga start 0 < 8
                \<and> nat (access_offset start 0) \<le> unat (a - access_ptr env pga start 0)
                \<and> unat (a - access_ptr env pga start 0) < nat (access_offset start 0) + nat cnt)
           \<or> (\<exists>pgb. 8 < access_offset start 0 + cnt
                \<and> xa_load (page_array s)
                     (access_index vma start (8 - access_offset start 0) (8 - access_offset start 0)
                        (sgx_virt_epc_calc_index vma start)) = Some pgb
                \<and> a - access_ptr env pgb start (8 - access_offset start 0) < 8
                \<and> unat (a - access_ptr env pgb start (8 - access_offset start 0))
                     < nat (cnt - (8 - access_offset start 0)))))"
proof -
  let ?p = "access_ptr env pg start 0"
  let ?o = "access_offset start 0"
  let ?c1 = "8 - ?o"
  let ?p2 = "access_ptr env pgn start ?c1"
  let ?m = "\<lambda>a. if a - ?p < 8 \<and> nat ?o \<le> unat (a - ?p) \<and> unat (a - ?p) < nat ?o + nat cnt
                  then buf ! (unat (a - ?p) - nat ?o) else epc_mem s a"
  have ix: "access_index vma start 0 (uninit_cnt u) (uninit_index u) = sgx_virt_epc_calc_index vma start"
    by (simp add: access_index_def)
  have o0: "0 \<le> ?o" "?o \<le> 7" using access_offset_range [of start 0] by simp_all
  have single: "sgx_virt_epc_access env u vma start buf cnt True s = (cnt, buf, s\<lparr>epc_mem := ?m\<rparr>)
       \<and> (\<forall>k<8. epc_mem (snd (snd (sgx_virt_epc_access env u vma start buf cnt True s))) (?p + of_nat k)
                  = (if nat ?o \<le> k \<and> k < nat ?o + nat cnt
                     then buf ! (k - nat ?o) else epc_mem s (?p + of_nat k)))"
    if c0: "0 < cnt" and c8: "cnt < 8" and bl: "nat cnt \<le> length buf"
      and pg: "xa_load (page_array s) (sgx_virt_epc_calc_index vma start) = Some pg"
      and rd: "edbgrd_ret env ?p = 0" and wr: "edbgwr_ret env ?p = 0"
      and oc: "?o + cnt \<le> 8"
  proof -
    have cn: "access_cnt start cnt 0 = cnt"
      using oc by (simp add: access_cnt_def)
    from rmw_chunk [OF o0(1) c0 oc, of 0 buf env ?p "uninit_data u" s] bl rd wr
    obtain data2 where ch: "access_chunk env True ?p ?o cnt 0 0 (uninit_data u) buf s =
        (0, data2, buf, s\<lparr>epc_mem := ?m\<rparr>)"
      by (auto cong: if_cong)
    have "sgx_virt_epc_access env u vma start buf cnt True s =
        sgx_virt_epc_access_loop env vma start cnt True (0 + access_cnt start cnt 0)
          (access_cnt start cnt 0) (access_index vma start 0 (uninit_cnt u) (uninit_index u))
          data2 0 buf (s\<lparr>epc_mem := ?m\<rparr>)"
      unfolding sgx_virt_epc_access_def
    proof (rule access_loop_step [where pg = pg])
      show "0 < cnt" by fact
      show "(0::int) = 0" by simp
      show "xa_load (page_array s) (access_index vma start 0 (uninit_cnt u) (uninit_index u)) = Some pg"
        by (simp add: ix pg)
      show "access_chunk env True ?p ?o (access_cnt start cnt 0) 0 0 (uninit_data u) buf s
              = (0, data2, buf, s\<lparr>epc_mem := ?m\<rparr>)"
        unfolding cn by (rule ch)
    qed
    also have "\<dots> = (cnt, buf, s\<lparr>epc_mem := ?m\<rparr>)"
      by (simp add: cn access_loop_exit)
    finally have res: "sgx_virt_epc_access env u vma start buf cnt True s = (cnt, buf, s\<lparr>epc_mem := ?m\<rparr>)" .
    have "?m (?p + of_nat k) = (if nat ?o \<le> k \<and> k < nat ?o + nat cnt
                       then buf ! (k - nat ?o) else epc_mem s (?p + of_nat k))" if "k < 8" for k
      using of_nat_lt8 [OF that] by simp
    then show ?thesis
      unfolding res by simp
  qed
  let ?m1 = "overlay (epc_mem s) ?p (nat ?o) (take (nat ?c1) buf)"
  let ?m2 = "overlay ?m1 ?p2 0 (take (nat (cnt - ?c1)) (drop (nat ?c1) buf))"
  have straddle: "sgx_virt_epc_access env u vma start buf cnt True s = (cnt, buf, s\<lparr>epc_mem := ?m2\<rparr>)"
    if c0: "0 < cnt" and c8: "cnt < 8" and bl: "nat cnt \<le> length buf"
      and pg: "xa_load (page_array s) (sgx_virt_epc_calc_index vma start) = Some pg"
      and rd: "edbgrd_ret env ?p = 0" and wr: "edbgwr_ret env ?p = 0"
      and oc: "8 < ?o + cnt"
      and pgn: "xa_load (page_array s) (access_index vma start ?c1 ?c1 (sgx_virt_epc_calc_index vma start)) = Some pgn"
      and rd2: "edbgrd_ret env ?p2 = 0" and wr2: "edbgwr_ret env ?p2 = 0"
  proof -
    have cn1: "access_cnt start cnt 0 = ?c1"
      using oc by (simp add: access_cnt_def)
    have c1: "0 < ?c1" "?c1 < cnt" using o0 oc by simp_all
    have off2: "access_offset start ?c1 = 0"
      using next_boundary_aligned [of start 0] by simp
    have cn2: "access_cnt start cnt ?c1 = cnt - ?c1"
      using c8 c1 by (simp add: access_cnt_def off2)
    from write_chunk_step [OF order_refl c0 bl, of s vma start "uninit_cnt u" "uninit_index u" pg env
        "uninit_data u"] pg rd wr
    obtain d1 where s1: "sgx_virt_epc_access_loop env vma start cnt True 0 (uninit_cnt u)
          (uninit_index u) (uninit_data u) 0 buf s =
        sgx_virt_epc_access_loop env vma start cnt True ?c1 ?c1 (sgx_virt_epc_calc_index vma start)
          d1 0 buf (s\<lparr>epc_mem := ?m1\<rparr>)"
      by (auto simp: ix cn1)
    have pgn': "xa_load (page_array (s\<lparr>epc_mem := ?m1\<rparr>))
        (access_index vma start ?c1 ?c1 (sgx_virt_epc_calc_index vma start)) = Some pgn"
      using pgn by simp
    have c1pos: "0 \<le> ?c1" using c1(1) by simp
    from write_chunk_step [OF c1pos c1(2) bl pgn' rd2 wr2, of d1]
    obtain d2 where s2: "sgx_virt_epc_access_loop env vma start cnt True ?c1 ?c1
          (sgx_virt_epc_calc_index vma start) d1 0 buf (s\<lparr>epc_mem := ?m1\<rparr>) =
        sgx_virt_epc_access_loop env vma start cnt True (?c1 + (cnt - ?c1)) (cnt - ?c1)
          (access_index vma start ?c1 ?c1 (sgx_virt_epc_calc_index vma start))
          d2 0 buf (s\<lparr>epc_mem := ?m2\<rparr>)"
      by (auto simp: cn2 off2)
    have "sgx_virt_epc_access_loop env vma start cnt True (?c1 + (cnt - ?c1)) (cnt - ?c1)
          (access_index vma start ?c1 ?c1 (sgx_virt_epc_calc_index vma start))
          d2 0 buf (s\<lparr>epc_mem := ?m2\<rparr>) = (cnt, buf, s\<lparr>epc_mem := ?m2\<rparr>)"
      by (simp add: access_loop_exit)
    with s1 s2 show ?thesis
      unfolding sgx_virt_epc_access_def by simp
  qed
  have out: "?m2 a = epc_mem s a"
    if "\<not> (a - ?p < 8 \<and> nat ?o \<le> unat (a - ?p))"
      "\<not> (a - ?p2 < 8 \<and> unat (a - ?p2) < nat (cnt - ?c1))" for a
    using that by (auto simp: overlay_def)
  have in2: "?m2 (?p2 + of_nat k) = buf ! (nat ?c1 + k)"
    if k: "k < nat (cnt - ?c1)" and c8: "cnt < 8" and bl: "nat cnt \<le> length buf" and "8 < ?o + cnt" for k
  proof -
    have k8: "k < 8" using k c8 o0 by linarith
    have l: "length (take (nat (cnt - ?c1)) (drop (nat ?c1) buf)) = nat (cnt - ?c1)"
      using bl o0 by simp
    have "take (nat (cnt - ?c1)) (drop (nat ?c1) buf) ! k = buf ! (nat ?c1 + k)"
      using k bl o0 by simp
    then show ?thesis
      using of_nat_lt8 [OF k8] k l by (simp add: overlay_def)
  qed
  have in1: "?m2 (?p + of_nat k) = buf ! (k - nat ?o)"
    if k8: "k < 8" and ko: "nat ?o \<le> k"
      and no2: "\<not> (?p + of_nat k - ?p2 < 8 \<and> unat (?p + of_nat k - ?p2) < nat (cnt - ?c1))"
      and bl: "nat cnt \<le> length buf" and oc: "8 < ?o + cnt" for k
  proof -
    have l: "length (take (nat ?c1) buf) = nat ?c1"
      using bl o0 oc by simp
    have n: "nat ?o + nat ?c1 = 8" using o0 by simp
    have "?m2 (?p + of_nat k) = ?m1 (?p + of_nat k)"
      using no2 by (auto simp: overlay_def)
    also have "\<dots> = take (nat ?c1) buf ! (k - nat ?o)"
      using of_nat_lt8 [OF k8] ko k8 l n by (simp add: overlay_def)
    also have "\<dots> = buf ! (k - nat ?o)"
      using k8 ko o0 by simp
    finally show ?thesis .
  qed
  have gen: "\<exists>data2. sgx_virt_epc_access_loop env vma start len True i c index data 0 bufw sw =
           sgx_virt_epc_access_loop env vma start len True (i + access_cnt start len i)
             (access_cnt start len i) (access_index vma start i c index) data2 0 bufw
             (sw\<lparr>epc_mem := overlay (epc_mem sw) (access_ptr env pgw start i)
                                (nat (access_offset start i))
                                (take (nat (access_cnt start len i)) (drop (nat i) bufw))\<rparr>)"
    if "0 \<le> i" "i < len" "nat len \<le> length bufw"
      "xa_load (page_array sw) (access_index vma start i c index) = Some pgw"
      "edbgrd_ret env (access_ptr env pgw start i) = 0"
      "edbgwr_ret env (access_ptr env pgw start i) = 0"
    using that by (rule write_chunk_step)
  show ?thesis
  proof (intro conjI impI)
    assume h: "0 < cnt \<and> cnt < 8 \<and> nat cnt \<le> length buf
      \<and> xa_load (page_array s) (sgx_virt_epc_calc_index vma start) = Some pg
      \<and> edbgrd_ret env ?p = 0 \<and> edbgwr_ret env ?p = 0"
    {
      assume oc: "?o + cnt \<le> 8"
      from single [of] h oc
      show "sgx_virt_epc_access env u vma start buf cnt True s = (cnt, buf, s\<lparr>epc_mem := ?m\<rparr>)"
        by blast
      from single h oc
      show "\<forall>k<8. epc_mem (snd (snd (sgx_virt_epc_access env u vma start buf cnt True s))) (?p + of_nat k)
                  = (if nat ?o \<le> k \<and> k < nat ?o + nat cnt
                     then buf ! (k - nat ?o) else epc_mem s (?p + of_nat k))"
        by blast
    }
    {
      assume h2: "8 < ?o + cnt
        \<and> xa_load (page_array s) (access_index vma start ?c1 ?c1 (sgx_virt_epc_calc_index vma start)) = Some pgn
        \<and> edbgrd_ret env ?p2 = 0 \<and> edbgwr_ret env ?p2 = 0"
      from straddle h h2
      have res: "sgx_virt_epc_access env u vma start buf cnt True s = (cnt, buf, s\<lparr>epc_mem := ?m2\<rparr>)"
        by blast
      show "sgx_virt_epc_access env u vma start buf cnt True s = (cnt, buf, s\<lparr>epc_mem := ?m2\<rparr>)"
        by (rule res)
      show "\<forall>a. \<not> (a - ?p < 8 \<and> nat ?o \<le> unat (a - ?p))
              \<and> \<not> (a - ?p2 < 8 \<and> unat (a - ?p2) < nat (cnt - ?c1)) \<longrightarrow>
              epc_mem (snd (snd (sgx_virt_epc_access env u vma start buf cnt True s))) a = epc_mem s a"
        unfolding res using out by simp
      show "\<forall>k < nat (cnt - ?c1).
              epc_mem (snd (snd (sgx_virt_epc_access env u vma start buf cnt True s))) (?p2 + of_nat k)
              = buf ! (nat ?c1 + k)"
        unfolding res using in2 h h2 by simp
      show "\<forall>k<8. nat ?o \<le> k
              \<and> \<not> (?p + of_nat k - ?p2 < 8 \<and> unat (?p + of_nat k - ?p2) < nat (cnt - ?c1)) \<longrightarrow>
              epc_mem (snd (snd (sgx_virt_epc_access env u vma start buf cnt True s))) (?p + of_nat k)
              = buf ! (k - nat ?o)"
        unfolding res using in1 h h2 by simp
    }
  next
    assume "0 \<le> i \<and> i < len \<and> nat len \<le> length bufw
        \<and> xa_load (page_array sw) (access_index vma start i c index) = Some pgw
        \<and> edbgrd_ret env (access_ptr env pgw start i) = 0
        \<and> edbgwr_ret env (access_ptr env pgw start i) = 0"
    then show "\<exists>data2. sgx_virt_epc_access_loop env vma start len True i c index data 0 bufw sw =
           sgx_virt_epc_access_loop env vma start len True (i + access_cnt start len i)
             (access_cnt start len i) (access_index vma start i c index) data2 0 bufw
             (sw\<lparr>epc_mem := overlay (epc_mem sw) (access_ptr env pgw start i)
                                (nat (access_offset start i))
                                (take (nat (access_cnt start len i)) (drop (nat i) bufw))\<rparr>)"
      using gen by blast
  next
    assume h4: "0 < cnt \<and> cnt < 8 \<and> nat cnt \<le> length buf"
    show "\<forall>a. epc_mem (snd (snd (sgx_virt_epc_access env u vma start buf cnt True s))) a = epc_mem s a
           \<or> (\<exists>pga. xa_load (page_array s) (sgx_virt_epc_calc_index vma start) = Some pga
                \<and> a - access_ptr env pga start 0 < 8
                \<and> nat (access_offset start 0) \<le> unat (a - access_ptr env pga start 0)
                \<and> unat (a - access_ptr env pga start 0) < nat (access_offset start 0) + nat cnt)
           \<or> (\<exists>pgb. 8 < access_offset start 0 + cnt
                \<and> xa_load (page_array s)
                     (access_index vma start (8 - access_offset start 0) (8 - access_offset start 0)
                        (sgx_virt_epc_calc_index vma start)) = Some pgb
                \<and> a - access_ptr env pgb start (8 - access_offset start 0) < 8
                \<and> unat (a - access_ptr env pgb start (8 - access_offset start 0))
                     < nat (cnt - (8 - access_offset start 0)))"
    proof (intro allI)
      fix a
      from h4 partial_write_touches_only_its_bytes [of cnt buf env u vma start s a]
      show "epc_mem (snd (snd (sgx_virt_epc_access env u vma start buf cnt True s))) a = epc_mem s a
           \<or> (\<exists>pga. xa_load (page_array s) (sgx_virt_epc_calc_index vma start) = Some pga
                \<and> a - access_ptr env pga start 0 < 8
                \<and> nat (access_offset start 0) \<le> unat (a - access_ptr env pga start 0)
                \<and> unat (a - access_ptr env pga start 0) < nat (access_offset start 0) + nat cnt)
           \<or> (\<exists>pgb. 8 < access_offset start 0 + cnt
                \<and> xa_load (page_array s)
                     (access_index vma start (8 - access_offset start 0) (8 - access_offset start 0)
                        (sgx_virt_epc_calc_index vma start)) = Some pgb
                \<and> a - access_ptr env pgb start (8 - access_offset start 0) < 8
                \<and> unat (a - access_ptr env pgb start (8 - access_offset start 0))
                     < nat (cnt - (8 - access_offset start 0)))"
        by blast
    qed
  qed
qed

theorem partial_write_is_read_modify_write_witness:
  "epc_quadword ex_sys3 0x40002000 = 0
   \<and> fst (sgx_virt_epc_access ex_env ex_uninit ex_vma 0x7002003 [0xFF] 1 True ex_sys3) = 1
   \<and> epc_quadword (snd (snd (sgx_virt_epc_access ex_env ex_uninit ex_vma 0x7002003 [0xFF] 1 True ex_sys3)))
        0x40002000 = 0x00000000FF000000
   \<and> epc_quadword ex_sys2 0x40002000 = 0x0706050403020100
   \<and> epc_quadword ex_sys2 0x40002008 = 0x0F0E0D0C0B0A0908
   \<and> access_offset 0x7002006 0 = 6
   \<and> fst (sgx_virt_epc_access ex_env ex_uninit ex_vma 0x7002006 [0xC0, 0xC1, 0xC2, 0xC3] 4 True ex_sys2) = 4
   \<and> epc_quadword (snd (snd (sgx_virt_epc_access ex_env ex_uninit ex_vma 0x7002006
        [0xC0, 0xC1, 0xC2, 0xC3] 4 True ex_sys2))) 0x40002000 = 0xC1C0050403020100
   \<and> epc_quadword (snd (snd (sgx_virt_epc_access ex_env ex_uninit ex_vma 0x7002006
        [0xC0, 0xC1, 0xC2, 0xC3] 4 True ex_sys2))) 0x40002008 = 0x0F0E0D0C0B0AC3C2
   \<and> (\<exists>data2. sgx_virt_epc_access_loop ex_env ex_vma 0x7002006 4 True 0 0 0 [] 0
                  [0xC0, 0xC1, 0xC2, 0xC3] ex_sys2 =
                sgx_virt_epc_access_loop ex_env ex_vma 0x7002006 4 True 2 2 2 data2 0
                  [0xC0, 0xC1, 0xC2, 0xC3]
                  (ex_sys2\<lparr>epc_mem := overlay (epc_mem ex_sys2) 0x40002000 6 [0xC0, 0xC1]\<rparr>))
   \<and> epc_mem (snd (snd (sgx_virt_epc_access ex_env ex_uninit ex_vma 0x7002006
        [0xC0, 0xC1, 0xC2, 0xC3] 4 True ex_sys2))) 0x40002010 = epc_mem ex_sys2 0x40002010"
proof -
  have p: "access_ptr ex_env 0x1040 0x7002003 0 = 0x40002000"
    by (simp add: access_ptr_def ex_access_defs)
  have off: "access_offset 0x7002003 0 = 3"
    by (simp add: access_offset_def)
  have pre: "xa_load (page_array ex_sys3) (sgx_virt_epc_calc_index ex_vma 0x7002003) = Some 0x1040"
    by (simp add: ex_sys3_def ex_access_defs)
  have h: "(0::int) < 1" "(1::int) < 8" "access_offset 0x7002003 0 + 1 \<le> 8" "nat 1 \<le> length [0xFF :: byte]"
    "edbgrd_ret ex_env (access_ptr ex_env 0x1040 0x7002003 0) = 0"
    "edbgwr_ret ex_env (access_ptr ex_env 0x1040 0x7002003 0) = 0"
    by (simp_all add: off ex_env_def)
  have before: "epc_quadword ex_sys3 0x40002000 = 0"
    by (simp add: epc_quadword_def le64_def ex_sys3_def ex_sys_def upt_rec)
  have one: "fst (sgx_virt_epc_access ex_env ex_uninit ex_vma 0x7002003 [0xFF] 1 True ex_sys3) = 1
   \<and> epc_quadword (snd (snd (sgx_virt_epc_access ex_env ex_uninit ex_vma 0x7002003 [0xFF] 1 True ex_sys3)))
        0x40002000 = 0x00000000FF000000"
    using partial_write_is_read_modify_write [where cnt = 1 and buf = "[0xFF]" and s = ex_sys3
        and vma = ex_vma and start = "0x7002003" and pg = "0x1040" and env = ex_env and u = ex_uninit
        and pgn = 0 and i = 0 and len = 0 and bufw = "[]" and sw = ex_sys3 and c = 0 and index = 0
        and pgw = 0 and data = "[]", THEN conjunct1]
      h pre
    by (simp add: p off epc_quadword_def le64_def upt_rec ex_sys3_def ex_sys_def)
  have p1: "access_ptr ex_env 0x1040 0x7002006 0 = 0x40002000"
    and p2: "access_ptr ex_env 0x1040 0x7002006 2 = 0x40002008"
    by (simp_all add: access_ptr_def ex_access_defs)
  have off6: "access_offset 0x7002006 0 = 6"
    by (simp add: access_offset_def)
  have ix1: "sgx_virt_epc_calc_index ex_vma 0x7002006 = 2"
    by (simp add: ex_access_defs)
  have ix2: "access_index ex_vma 0x7002006 2 2 2 = 2"
    by (simp add: access_index_def ex_access_defs)
  have pa: "xa_load (page_array ex_sys2) 2 = Some 0x1040"
    by (simp add: ex_access_defs)
  have ins: "edbgrd_ret ex_env a = 0" "edbgwr_ret ex_env a = 0" for a
    by (simp_all add: ex_env_def)
  have b0: "epc_quadword ex_sys2 0x40002000 = 0x0706050403020100"
    and b1: "epc_quadword ex_sys2 0x40002008 = 0x0F0E0D0C0B0A0908"
    by (simp_all add: epc_quadword_def le64_def ex_sys2_def ex_sys_def upt_rec)
  have two: "sgx_virt_epc_access ex_env ex_uninit ex_vma 0x7002006 [0xC0, 0xC1, 0xC2, 0xC3] 4 True ex_sys2
      = (4, [0xC0, 0xC1, 0xC2, 0xC3],
         ex_sys2\<lparr>epc_mem := overlay (overlay (epc_mem ex_sys2) 0x40002000 6 [0xC0, 0xC1]) 0x40002008 0
                                 [0xC2, 0xC3]\<rparr>)"
    using partial_write_is_read_modify_write [where cnt = 4 and buf = "[0xC0, 0xC1, 0xC2, 0xC3]"
        and s = ex_sys2 and vma = ex_vma and start = "0x7002006" and pg = "0x1040" and env = ex_env
        and u = ex_uninit and pgn = "0x1040" and i = 0 and len = 0 and bufw = "[]" and sw = ex_sys2
        and c = 0 and index = 0 and pgw = 0 and data = "[]", THEN conjunct1]
    by (simp add: off6 ix1 ix2 pa ins p1 p2)
  have q0: "epc_quadword (ex_sys2\<lparr>epc_mem := overlay (overlay (epc_mem ex_sys2) 0x40002000 6 [0xC0, 0xC1])
        0x40002008 0 [0xC2, 0xC3]\<rparr>) 0x40002000 = 0xC1C0050403020100"
    by (simp add: epc_quadword_def le64_def overlay_def ex_sys2_def ex_sys_def upt_rec)
  have q1: "epc_quadword (ex_sys2\<lparr>epc_mem := overlay (overlay (epc_mem ex_sys2) 0x40002000 6 [0xC0, 0xC1])
        0x40002008 0 [0xC2, 0xC3]\<rparr>) 0x40002008 = 0x0F0E0D0C0B0AC3C2"
    by (simp add: epc_quadword_def le64_def overlay_def ex_sys2_def ex_sys_def upt_rec)
  have ix0: "access_index ex_vma 0x7002006 0 0 0 = 2"
    by (simp add: access_index_def ex_access_defs)
  have cn0: "access_cnt 0x7002006 4 0 = 2"
    by (simp add: access_cnt_def off6)
  have three: "\<exists>data2. sgx_virt_epc_access_loop ex_env ex_vma 0x7002006 4 True 0 0 0 [] 0
                  [0xC0, 0xC1, 0xC2, 0xC3] ex_sys2 =
                sgx_virt_epc_access_loop ex_env ex_vma 0x7002006 4 True 2 2 2 data2 0
                  [0xC0, 0xC1, 0xC2, 0xC3]
                  (ex_sys2\<lparr>epc_mem := overlay (epc_mem ex_sys2) 0x40002000 6 [0xC0, 0xC1]\<rparr>)"
    using partial_write_is_read_modify_write [where cnt = 4 and buf = "[0xC0, 0xC1, 0xC2, 0xC3]"
        and s = ex_sys2 and vma = ex_vma and start = "0x7002006" and pg = "0x1040" and env = ex_env
        and u = ex_uninit and pgn = "0x1040" and i = 0 and len = 4
        and bufw = "[0xC0, 0xC1, 0xC2, 0xC3]" and sw = ex_sys2
        and c = 0 and index = 0 and pgw = "0x1040" and data = "[]", THEN conjunct2, THEN conjunct1]
    by (simp add: ix0 cn0 off6 pa ins p1)
  have four: "epc_mem (snd (snd (sgx_virt_epc_access ex_env ex_uninit ex_vma 0x7002006
        [0xC0, 0xC1, 0xC2, 0xC3] 4 True ex_sys2))) 0x40002010 = epc_mem ex_sys2 0x40002010"
    using partial_write_is_read_modify_write [where cnt = 4 and buf = "[0xC0, 0xC1, 0xC2, 0xC3]"
        and s = ex_sys2 and vma = ex_vma and start = "0x7002006" and pg = "0x1040" and env = ex_env
        and u = ex_uninit and pgn = "0x1040" and i = 0 and len = 0 and bufw = "[]" and sw = ex_sys2
        and c = 0 and index = 0 and pgw = 0 and data = "[]", THEN conjunct2, THEN conjunct2,
        rule_format, of "0x40002010"]
    by (simp add: off6 ix1 ix2 pa p1 p2)
  show ?thesis
    using before one b0 b1 off6 q0 q1 three four by (simp only: two fst_conv snd_conv)
qed

text \<open>
  The example of the claim: a one-byte write of \<open>0xFF\<close> at offset 3 into a word that is 0
  gives \<open>0x00000000FF000000\<close>, which is not \<open>0x0000000000FF0000\<close>.
\<close>

theorem partial_write_example_counterexample:
  "epc_quadword ex_sys3 0x40002000 = 0
   \<and> access_offset 0x7002003 0 = 3
   \<and> epc_quadword (snd (snd (sgx_virt_epc_access ex_env ex_uninit ex_vma 0x7002003 [0xFF] 1 True ex_sys3)))
        0x40002000 \<noteq> 0x0000000000FF0000"
  by (simp add: epc_quadword_def le64_def upt_rec ex_sys3_def access_offset_def ex_access_defs)

subsection \<open>Release protocol\<close>

lemma free_page_None: "sgx_virt_epc_free_page env None s = (0, s)"
  by (simp add: sgx_virt_epc_free_page_def)

lemma free_page_Some:
  "sgx_virt_epc_free_page env (Some p) s =
     (fst (eremove env (epcm s) (sgx_get_epc_virt_addr env p)),
      s\<lparr>epcm := snd (eremove env (epcm s) (sgx_get_epc_virt_addr env p)),
        eremove_calls := eremove_calls s @ [(p, fst (eremove env (epcm s) (sgx_get_epc_virt_addr env p)))],
        free_pages := free_pages s @
          (if fst (eremove env (epcm s) (sgx_get_epc_virt_addr env p)) = 0 then [p] else [])\<rparr>)"
  by (simp add: sgx_virt_epc_free_page_def sgx_free_epc_page_inner_def Let_def split: prod.splits)

lemma free_page_fields:
  assumes "sgx_virt_epc_free_page env (Some p) s = (r, s1)"
  shows "r = fst (eremove env (epcm s) (sgx_get_epc_virt_addr env p))"
    and "page_array s1 = page_array s"
    and "virt_epc_zombie_pages s1 = virt_epc_zombie_pages s"
    and "eremove_calls s1 = eremove_calls s @ [(p, r)]"
    and "free_pages s1 = free_pages s @ (if r = 0 then [p] else [])"
  using assms by (auto simp: free_page_Some)

lemma xa_erase_mid:
  assumes "distinct (map fst (kept @ (i, p) # rest))"
  shows "xa_erase (kept @ (i, p) # rest) i = kept @ rest"
proof -
  have k: "filter (\<lambda>e. fst e \<noteq> i) kept = kept"
    using assms by (auto simp: filter_id_conv)
  have r: "filter (\<lambda>e. fst e \<noteq> i) rest = rest"
    using assms by (auto simp: filter_id_conv)
  show ?thesis by (simp add: xa_erase_def k r)
qed

lemma pass1_spec:
  assumes "distinct (map fst (kept @ xs))" and "page_array s = kept @ xs"
  shows "\<exists>L. length L = length xs \<and> map fst L = map snd xs
     \<and> eremove_calls (release_pass1 env xs s) = eremove_calls s @ L
     \<and> free_pages (release_pass1 env xs s) = free_pages s @ map fst (filter (\<lambda>c. snd c = 0) L)
     \<and> page_array (release_pass1 env xs s)
         = kept @ map fst (filter (\<lambda>ec. snd (snd ec) \<noteq> 0) (zip xs L))
     \<and> virt_epc_zombie_pages (release_pass1 env xs s) = virt_epc_zombie_pages s"
  using assms
proof (induction xs arbitrary: s kept)
  case Nil
  then show ?case by simp
next
  case (Cons e rest)
  obtain i p where e: "e = (i, p)" by (cases e)
  obtain r s1 where fp: "sgx_virt_epc_free_page env (Some p) s = (r, s1)"
    by (cases "sgx_virt_epc_free_page env (Some p) s")
  note f = free_page_fields [OF fp]
  show ?case
  proof (cases "r = 0")
    case False
    have d: "distinct (map fst ((kept @ [(i, p)]) @ rest))"
      using Cons.prems(1) e by simp
    have pa: "page_array s1 = (kept @ [(i, p)]) @ rest"
      using f(2) Cons.prems(2) e by simp
    from Cons.IH [OF d pa] obtain L where L:
      "length L = length rest" "map fst L = map snd rest"
      "eremove_calls (release_pass1 env rest s1) = eremove_calls s1 @ L"
      "free_pages (release_pass1 env rest s1) = free_pages s1 @ map fst (filter (\<lambda>c. snd c = 0) L)"
      "page_array (release_pass1 env rest s1)
         = (kept @ [(i, p)]) @ map fst (filter (\<lambda>ec. snd (snd ec) \<noteq> 0) (zip rest L))"
      "virt_epc_zombie_pages (release_pass1 env rest s1) = virt_epc_zombie_pages s1"
      by blast
    have step: "release_pass1 env (e # rest) s = release_pass1 env rest s1"
      using fp False e by simp
    show ?thesis
      unfolding step
      apply (rule exI [of _ "(p, r) # L"])
      using L f(2-5) False e by simp
  next
    case True
    let ?s2 = "s1\<lparr>page_array := xa_erase (page_array s1) i\<rparr>"
    have d: "distinct (map fst (kept @ rest))"
      using Cons.prems(1) e by simp
    have pa: "page_array ?s2 = kept @ rest"
      using f(2) Cons.prems e by (simp add: xa_erase_mid)
    from Cons.IH [OF d pa] obtain L where L:
      "length L = length rest" "map fst L = map snd rest"
      "eremove_calls (release_pass1 env rest ?s2) = eremove_calls ?s2 @ L"
      "free_pages (release_pass1 env rest ?s2) = free_pages ?s2 @ map fst (filter (\<lambda>c. snd c = 0) L)"
      "page_array (release_pass1 env rest ?s2)
         = kept @ map fst (filter (\<lambda>ec. snd (snd ec) \<noteq> 0) (zip rest L))"
      "virt_epc_zombie_pages (release_pass1 env rest ?s2) = virt_epc_zombie_pages ?s2"
      by blast
    have step: "release_pass1 env (e # rest) s = release_pass1 env rest ?s2"
      using fp True e by simp
    show ?thesis
      unfolding step
      apply (rule exI [of _ "(p, r) # L"])
      using L f(2-5) True e by simp
  qed
qed

lemma xa_erase_head:
  "distinct (map fst ((i, p) # rest)) \<Longrightarrow> xa_erase ((i, p) # rest) i = rest"
  using xa_erase_mid [of "[]" i p rest] by simp

lemma pass2_spec:
  assumes "distinct (map fst xs)" and "page_array s = xs"
  shows "\<exists>L. length L = length xs \<and> map fst L = map snd xs
     \<and> eremove_calls (snd (release_pass2 env xs secs s)) = eremove_calls s @ L
     \<and> free_pages (snd (release_pass2 env xs secs s)) = free_pages s @ map fst (filter (\<lambda>c. snd c = 0) L)
     \<and> fst (release_pass2 env xs secs s) = secs @ map fst (filter (\<lambda>c. snd c \<noteq> 0) L)
     \<and> page_array (snd (release_pass2 env xs secs s)) = []
     \<and> virt_epc_zombie_pages (snd (release_pass2 env xs secs s)) = virt_epc_zombie_pages s"
  using assms
proof (induction xs arbitrary: s secs)
  case Nil
  then show ?case by simp
next
  case (Cons e rest)
  obtain i p where e: "e = (i, p)" by (cases e)
  obtain r s1 where fp: "sgx_virt_epc_free_page env (Some p) s = (r, s1)"
    by (cases "sgx_virt_epc_free_page env (Some p) s")
  note f = free_page_fields [OF fp]
  let ?s2 = "s1\<lparr>page_array := xa_erase (page_array s1) i\<rparr>"
  let ?secs = "if r \<noteq> 0 then secs @ [p] else secs"
  have d: "distinct (map fst rest)" using Cons.prems(1) by simp
  have pa: "page_array ?s2 = rest"
    using f(2) Cons.prems e by (simp add: xa_erase_head)
  from Cons.IH [OF d pa, of ?secs] obtain L where L:
    "length L = length rest" "map fst L = map snd rest"
    "eremove_calls (snd (release_pass2 env rest ?secs ?s2)) = eremove_calls ?s2 @ L"
    "free_pages (snd (release_pass2 env rest ?secs ?s2)) = free_pages ?s2 @ map fst (filter (\<lambda>c. snd c = 0) L)"
    "fst (release_pass2 env rest ?secs ?s2) = ?secs @ map fst (filter (\<lambda>c. snd c \<noteq> 0) L)"
    "page_array (snd (release_pass2 env rest ?secs ?s2)) = []"
    "virt_epc_zombie_pages (snd (release_pass2 env rest ?secs ?s2)) = virt_epc_zombie_pages ?s2"
    by blast
  have step: "release_pass2 env (e # rest) secs s = release_pass2 env rest ?secs ?s2"
    using fp e by simp
  show ?case
    unfolding step
    apply (rule exI [of _ "(p, r) # L"])
    using L f(2-5) e by simp
qed

lemma pass3_spec:
  assumes "virt_epc_zombie_pages s = zs"
  shows "\<exists>L. length L = length zs \<and> map fst L = zs
     \<and> eremove_calls (snd (release_pass3 env zs secs s)) = eremove_calls s @ L
     \<and> free_pages (snd (release_pass3 env zs secs s)) = free_pages s @ map fst (filter (\<lambda>c. snd c = 0) L)
     \<and> fst (release_pass3 env zs secs s) = secs @ map fst (filter (\<lambda>c. snd c \<noteq> 0) L)
     \<and> page_array (snd (release_pass3 env zs secs s)) = page_array s
     \<and> virt_epc_zombie_pages (snd (release_pass3 env zs secs s)) = []"
  using assms
proof (induction zs arbitrary: s secs)
  case Nil
  then show ?case by simp
next
  case (Cons p rest)
  let ?s0 = "s\<lparr>virt_epc_zombie_pages := remove1 p (virt_epc_zombie_pages s)\<rparr>"
  obtain r s1 where fp: "sgx_virt_epc_free_page env (Some p) ?s0 = (r, s1)"
    by (cases "sgx_virt_epc_free_page env (Some p) ?s0")
  note f = free_page_fields [OF fp]
  let ?secs = "if r \<noteq> 0 then secs @ [p] else secs"
  have z: "virt_epc_zombie_pages s1 = rest"
    using f(3) Cons.prems by simp
  from Cons.IH [OF z, of ?secs] obtain L where L:
    "length L = length rest" "map fst L = rest"
    "eremove_calls (snd (release_pass3 env rest ?secs s1)) = eremove_calls s1 @ L"
    "free_pages (snd (release_pass3 env rest ?secs s1)) = free_pages s1 @ map fst (filter (\<lambda>c. snd c = 0) L)"
    "fst (release_pass3 env rest ?secs s1) = ?secs @ map fst (filter (\<lambda>c. snd c \<noteq> 0) L)"
    "page_array (snd (release_pass3 env rest ?secs s1)) = page_array s1"
    "virt_epc_zombie_pages (snd (release_pass3 env rest ?secs s1)) = []"
    by blast
  have step: "release_pass3 env (p # rest) secs s = release_pass3 env rest ?secs s1"
    using fp by simp
  show ?case
    unfolding step
    apply (rule exI [of _ "(p, r) # L"])
    using L f(2-5) by simp
qed

lemma zip_filter_sub:
  "length L = length xs \<Longrightarrow> distinct (map f xs) \<Longrightarrow>
     set (map fst (filter P (zip xs L))) \<subseteq> set xs
     \<and> distinct (map f (map fst (filter P (zip xs L))))"
proof (induction L xs rule: list_induct2)
  case Nil
  then show ?case by simp
next
  case (Cons c L x xs)
  then show ?case by (auto simp: image_iff dest: set_zip_leftD)
qed

lemma zip_failed_pages:
  "length L = length xs \<Longrightarrow> map fst L = map snd xs \<Longrightarrow>
     map snd (map fst (filter (\<lambda>ec. snd (snd ec) \<noteq> (0::int)) (zip xs L)))
       = map fst (filter (\<lambda>c. snd c \<noteq> 0) L)"
  by (induction L xs rule: list_induct2) auto

lemma release_spec:
  assumes d: "distinct (map fst (page_array s))"
  shows "\<exists>L1 L2 L3.
       length L1 = length (page_array s) \<and> map fst L1 = map snd (page_array s)
     \<and> map fst L2 = map fst (filter (\<lambda>c. snd c \<noteq> 0) L1)
     \<and> map fst L3 = virt_epc_zombie_pages s
     \<and> eremove_calls (snd (sgx_virt_epc_release env s)) = eremove_calls s @ L1 @ L2 @ L3
     \<and> free_pages (snd (sgx_virt_epc_release env s))
         = free_pages s @ map fst (filter (\<lambda>c. snd c = 0) (L1 @ L2 @ L3))
     \<and> virt_epc_zombie_pages (snd (sgx_virt_epc_release env s))
         = map fst (filter (\<lambda>c. snd c \<noteq> 0) (L2 @ L3))
     \<and> page_array (release_pass1 env (page_array s) s)
         = map fst (filter (\<lambda>ec. snd (snd ec) \<noteq> 0) (zip (page_array s) L1))
     \<and> page_array (snd (sgx_virt_epc_release env s)) = []"
proof -
  let ?xs = "page_array s"
  let ?s1 = "release_pass1 env ?xs s"
  from pass1_spec [where kept = "[]" and xs = ?xs and s = s and env = env] d obtain L1 where L1:
    "length L1 = length ?xs" "map fst L1 = map snd ?xs"
    "eremove_calls ?s1 = eremove_calls s @ L1"
    "free_pages ?s1 = free_pages s @ map fst (filter (\<lambda>c. snd c = 0) L1)"
    "page_array ?s1 = map fst (filter (\<lambda>ec. snd (snd ec) \<noteq> 0) (zip ?xs L1))"
    "virt_epc_zombie_pages ?s1 = virt_epc_zombie_pages s"
    by auto
  have d1: "distinct (map fst (page_array ?s1))"
    unfolding L1(5) using zip_filter_sub [OF L1(1) d] by blast
  let ?r2 = "release_pass2 env (page_array ?s1) [] ?s1"
  from pass2_spec [OF d1 refl, where env = env and secs = "[]"] obtain L2 where L2:
    "length L2 = length (page_array ?s1)" "map fst L2 = map snd (page_array ?s1)"
    "eremove_calls (snd ?r2) = eremove_calls ?s1 @ L2"
    "free_pages (snd ?r2) = free_pages ?s1 @ map fst (filter (\<lambda>c. snd c = 0) L2)"
    "fst ?r2 = [] @ map fst (filter (\<lambda>c. snd c \<noteq> 0) L2)"
    "page_array (snd ?r2) = []"
    "virt_epc_zombie_pages (snd ?r2) = virt_epc_zombie_pages ?s1"
    by blast
  have m2: "map fst L2 = map fst (filter (\<lambda>c. snd c \<noteq> 0) L1)"
    unfolding L2(2) L1(5) by (rule zip_failed_pages [OF L1(1) L1(2)])
  let ?r3 = "release_pass3 env (virt_epc_zombie_pages (snd ?r2)) (fst ?r2) (snd ?r2)"
  from pass3_spec [OF refl, where env = env and s = "snd ?r2" and secs = "fst ?r2"] obtain L3 where L3:
    "length L3 = length (virt_epc_zombie_pages (snd ?r2))"
    "map fst L3 = virt_epc_zombie_pages (snd ?r2)"
    "eremove_calls (snd ?r3) = eremove_calls (snd ?r2) @ L3"
    "free_pages (snd ?r3) = free_pages (snd ?r2) @ map fst (filter (\<lambda>c. snd c = 0) L3)"
    "fst ?r3 = fst ?r2 @ map fst (filter (\<lambda>c. snd c \<noteq> 0) L3)"
    "page_array (snd ?r3) = page_array (snd ?r2)"
    "virt_epc_zombie_pages (snd ?r3) = []"
    by blast
  have rel: "snd (sgx_virt_epc_release env s) =
      (if fst ?r3 \<noteq> []
       then (snd ?r3)\<lparr>virt_epc_zombie_pages := virt_epc_zombie_pages (snd ?r3) @ fst ?r3\<rparr>
       else snd ?r3)"
    by (simp add: sgx_virt_epc_release_def Let_def split: prod.splits)
  have z: "virt_epc_zombie_pages (snd (sgx_virt_epc_release env s)) = fst ?r3"
    unfolding rel using L3(7) by simp
  have e: "eremove_calls (snd (sgx_virt_epc_release env s)) = eremove_calls (snd ?r3)"
    unfolding rel by simp
  have fr: "free_pages (snd (sgx_virt_epc_release env s)) = free_pages (snd ?r3)"
    unfolding rel by simp
  have pa: "page_array (snd (sgx_virt_epc_release env s)) = page_array (snd ?r3)"
    unfolding rel by simp
  have c_e: "eremove_calls (snd (sgx_virt_epc_release env s)) = eremove_calls s @ L1 @ L2 @ L3"
    by (simp only: e L3(3) L2(3) L1(3) append_assoc)
  have c_f: "free_pages (snd (sgx_virt_epc_release env s))
         = free_pages s @ map fst (filter (\<lambda>c. snd c = 0) (L1 @ L2 @ L3))"
    by (simp only: fr L3(4) L2(4) L1(4) filter_append map_append append_assoc)
  have c_z: "virt_epc_zombie_pages (snd (sgx_virt_epc_release env s))
         = map fst (filter (\<lambda>c. snd c \<noteq> 0) (L2 @ L3))"
  proof -
    have "virt_epc_zombie_pages (snd (sgx_virt_epc_release env s))
        = fst ?r2 @ map fst (filter (\<lambda>c. snd c \<noteq> 0) L3)"
      by (simp only: z L3(5))
    also have "\<dots> = map fst (filter (\<lambda>c. snd c \<noteq> 0) (L2 @ L3))"
      by (simp only: L2(5) append_Nil filter_append map_append)
    finally show ?thesis .
  qed
  have c_p: "page_array (snd (sgx_virt_epc_release env s)) = []"
    by (simp only: pa L3(6) L2(6))
  have c_3: "map fst L3 = virt_epc_zombie_pages s"
    by (simp only: L3(2) L2(7) L1(6))
  show ?thesis
    using L1(1) L1(2) m2 c_3 c_e c_f c_z L1(5) c_p by blast
qed

lemmas ex_release_defs = sgx_virt_epc_release_def sgx_virt_epc_free_page_def
  sgx_free_epc_page_inner_def secs_eremove_def ex_env_secs_def ex_rel_def
  sgx_get_epc_virt_addr_def sizeof_sgx_epc_page_def PAGE_SIZE_def xa_erase_def
  SGX_CHILD_PRESENT_def eremove_since_def Let_def

lemma ex_rel_pass1:
  "release_pass1 ex_env_secs (page_array ex_rel) ex_rel
     = ex_rel\<lparr>page_array := [(0, 0x1000)], free_pages := [0x1020],
              eremove_calls := [(0x1000, 13), (0x1020, 0)],
              epcm := [(0x40003000, 0x40002000)]\<rparr>"
  by (simp add: ex_release_defs)

lemma ex_rel_release:
  "sgx_virt_epc_release ex_env_secs ex_rel
     = (0, ex_rel\<lparr>page_array := [], free_pages := [0x1020, 0x1000, 0x1080],
              eremove_calls := [(0x1000, 13), (0x1020, 0), (0x1000, 0), (0x1040, 13), (0x1080, 0)],
              epcm := [(0x40003000, 0x40002000)],
              virt_epc_zombie_pages := [0x1040]\<rparr>)"
  by (simp add: ex_release_defs)


text \<open>
  C1. After a release (on a table whose indices are distinct), the call returns 0, the
  region's table is empty, and the pages freed by the call together with the zombie list
  it leaves are exactly the pages the table owned together with the zombie list it found:
  as multisets, so nothing is dropped and nothing is duplicated. In particular every page
  of the table and every page that was on the zombie list when the walk started is freed
  or on the zombie list afterwards; and when those handles are distinct, each is in exactly
  one of the two, once.
\<close>

theorem release_accounts_for_every_page:
  assumes d: "distinct (map fst (page_array s))"
  shows "fst (sgx_virt_epc_release env s) = 0
     \<and> page_array (snd (sgx_virt_epc_release env s)) = []
     \<and> free_pages (snd (sgx_virt_epc_release env s))
         = free_pages s @ freed_since s (snd (sgx_virt_epc_release env s))
     \<and> mset (freed_since s (snd (sgx_virt_epc_release env s)))
         + mset (virt_epc_zombie_pages (snd (sgx_virt_epc_release env s)))
       = mset (map snd (page_array s)) + mset (virt_epc_zombie_pages s)
     \<and> (\<forall>p \<in> snd ` set (page_array s) \<union> set (virt_epc_zombie_pages s).
           p \<in> set (freed_since s (snd (sgx_virt_epc_release env s)))
             \<union> set (virt_epc_zombie_pages (snd (sgx_virt_epc_release env s))))
     \<and> (distinct (map snd (page_array s) @ virt_epc_zombie_pages s)
        \<longrightarrow> (\<forall>p \<in> snd ` set (page_array s) \<union> set (virt_epc_zombie_pages s).
               count_list (freed_since s (snd (sgx_virt_epc_release env s))
                           @ virt_epc_zombie_pages (snd (sgx_virt_epc_release env s))) p = 1
             \<and> ((p \<in> set (freed_since s (snd (sgx_virt_epc_release env s))))
                  \<noteq> (p \<in> set (virt_epc_zombie_pages (snd (sgx_virt_epc_release env s)))))))"
proof -
  let ?s' = "snd (sgx_virt_epc_release env s)"
  let ?ok = "\<lambda>c :: epc_page \<times> int. snd c = 0"
  let ?ko = "\<lambda>c :: epc_page \<times> int. snd c \<noteq> 0"
  from release_spec [OF d, of env] obtain L1 L2 L3 where
    l1: "map fst L1 = map snd (page_array s)"
    and l2: "map fst L2 = map fst (filter ?ko L1)"
    and l3: "map fst L3 = virt_epc_zombie_pages s"
    and fr: "free_pages ?s' = free_pages s @ map fst (filter ?ok (L1 @ L2 @ L3))"
    and zo: "virt_epc_zombie_pages ?s' = map fst (filter ?ko (L2 @ L3))"
    and pa: "page_array ?s' = []"
    by blast
  have fs: "freed_since s ?s' = map fst (filter ?ok (L1 @ L2 @ L3))"
    by (simp add: freed_since_def fr)
  have app: "free_pages ?s' = free_pages s @ freed_since s ?s'"
    by (simp only: fs fr)
  have part: "mset (map fst (filter ?ok L)) + mset (map fst (filter ?ko L)) = mset (map fst L)"
    for L :: "(epc_page \<times> int) list"
    by (induction L) auto
  have "mset (freed_since s ?s') + mset (virt_epc_zombie_pages ?s')
      = mset (map fst (filter ?ok L1))
        + (mset (map fst (filter ?ok L2)) + mset (map fst (filter ?ko L2)))
        + (mset (map fst (filter ?ok L3)) + mset (map fst (filter ?ko L3)))"
    by (simp add: fs zo)
  also have "\<dots> = mset (map fst (filter ?ok L1)) + mset (map fst L2) + mset (map fst L3)"
    by (simp only: part)
  also have "\<dots> = (mset (map fst (filter ?ok L1)) + mset (map fst (filter ?ko L1)))
        + mset (map fst L3)"
    by (simp add: l2)
  also have "\<dots> = mset (map snd (page_array s)) + mset (virt_epc_zombie_pages s)"
    by (simp only: part l1 l3)
  finally have cons: "mset (freed_since s ?s') + mset (virt_epc_zombie_pages ?s')
      = mset (map snd (page_array s)) + mset (virt_epc_zombie_pages s)" .
  have ret: "fst (sgx_virt_epc_release env s) = 0"
    by (simp add: sgx_virt_epc_release_def Let_def split: prod.splits)
  have sets: "set (freed_since s ?s') \<union> set (virt_epc_zombie_pages ?s')
      = snd ` set (page_array s) \<union> set (virt_epc_zombie_pages s)"
    using arg_cong [OF cons, of set_mset] by simp
  have cnt: "count_list (freed_since s ?s' @ virt_epc_zombie_pages ?s') p
      = count_list (map snd (page_array s) @ virt_epc_zombie_pages s) p"
    for p
  proof -
    have "mset (freed_since s ?s' @ virt_epc_zombie_pages ?s')
        = mset (map snd (page_array s) @ virt_epc_zombie_pages s)"
      using cons by (simp only: mset_append)
    from arg_cong [OF this, of "\<lambda>M. count M p"]
    show ?thesis by (simp only: count_mset)
  qed
  have one: "count_list (freed_since s ?s' @ virt_epc_zombie_pages ?s') p = 1
      \<and> ((p \<in> set (freed_since s ?s')) \<noteq> (p \<in> set (virt_epc_zombie_pages ?s')))"
    if dd: "distinct (map snd (page_array s) @ virt_epc_zombie_pages s)"
      and pin: "p \<in> snd ` set (page_array s) \<union> set (virt_epc_zombie_pages s)" for p
  proof -
    have pin': "p \<in> set (map snd (page_array s) @ virt_epc_zombie_pages s)" using pin by simp
    from dd have "\<forall>a. count (mset (map snd (page_array s) @ virt_epc_zombie_pages s)) a
        = (if a \<in> set (map snd (page_array s) @ virt_epc_zombie_pages s) then 1 else 0)"
      by (rule iffD1 [OF distinct_count_atmost_1])
    then have "count (mset (map snd (page_array s) @ virt_epc_zombie_pages s)) p
        = (if p \<in> set (map snd (page_array s) @ virt_epc_zombie_pages s) then 1 else 0)"
      by (rule spec)
    then have b: "count_list (map snd (page_array s) @ virt_epc_zombie_pages s) p = 1"
      using pin' by (simp only: count_mset if_True)
    from cnt [of p] b have c: "count_list (freed_since s ?s' @ virt_epc_zombie_pages ?s') p = 1"
      by simp
    then have "count_list (freed_since s ?s') p + count_list (virt_epc_zombie_pages ?s') p = 1"
      by simp
    then have "(count_list (freed_since s ?s') p = 0) \<noteq> (count_list (virt_epc_zombie_pages ?s') p = 0)"
      by arith
    then have "(p \<in> set (freed_since s ?s')) \<noteq> (p \<in> set (virt_epc_zombie_pages ?s'))"
      by (simp add: count_list_0_iff)
    with c show ?thesis by simp
  qed
  from sets have all: "\<forall>p \<in> snd ` set (page_array s) \<union> set (virt_epc_zombie_pages s).
           p \<in> set (freed_since s ?s') \<union> set (virt_epc_zombie_pages ?s')"
    by blast
  show ?thesis
    using ret pa app cons all one by blast
qed

theorem release_accounts_for_every_page_witness:
  "distinct (map fst (page_array ex_rel))
   \<and> distinct (map snd (page_array ex_rel) @ virt_epc_zombie_pages ex_rel)
   \<and> freed_since ex_rel (snd (sgx_virt_epc_release ex_env_secs ex_rel)) = [0x1020, 0x1000, 0x1080]
   \<and> virt_epc_zombie_pages (snd (sgx_virt_epc_release ex_env_secs ex_rel)) = [0x1040]
   \<and> count_list (freed_since ex_rel (snd (sgx_virt_epc_release ex_env_secs ex_rel))
                  @ virt_epc_zombie_pages (snd (sgx_virt_epc_release ex_env_secs ex_rel))) 0x1040 = 1"
proof -
  have h: "distinct (map fst (page_array ex_rel))"
    by (simp add: ex_rel_def)
  have h2: "distinct (map snd (page_array ex_rel) @ virt_epc_zombie_pages ex_rel)"
    by (simp add: ex_rel_def)
  have m: "(0x1040 :: epc_page) \<in> snd ` set (page_array ex_rel) \<union> set (virt_epc_zombie_pages ex_rel)"
    by (simp add: ex_rel_def)
  have fs: "freed_since ex_rel (snd (sgx_virt_epc_release ex_env_secs ex_rel)) = [0x1020, 0x1000, 0x1080]"
    by (simp only: ex_rel_release) (simp add: freed_since_def ex_rel_def)
  from release_accounts_for_every_page [OF h, of ex_env_secs] h2 m
  have "count_list (freed_since ex_rel (snd (sgx_virt_epc_release ex_env_secs ex_rel))
                  @ virt_epc_zombie_pages (snd (sgx_virt_epc_release ex_env_secs ex_rel))) 0x1040 = 1"
    by blast
  with h h2 fs show ?thesis
    by (simp add: ex_rel_release)
qed

text \<open>
  C2, as the code has it. Pass 1 (on a table whose indices are distinct) calls
  \<^verbatim>\<open>EREMOVE\<close> once on every entry of the table, in index order, whatever the results:
  after a failure the loop goes on with the next entry. An entry whose removal failed is
  still in the table afterwards; an entry whose removal succeeded is erased and its page
  is on the free record.
\<close>

theorem release_pass1_keeps_failed_entries_and_moves_on:
  assumes d: "distinct (map fst (page_array s))"
  shows "length (eremove_since s (release_pass1 env (page_array s) s)) = length (page_array s)
     \<and> map fst (eremove_since s (release_pass1 env (page_array s) s)) = map snd (page_array s)
     \<and> page_array (release_pass1 env (page_array s) s)
         = map fst (filter (\<lambda>ec. snd (snd ec) \<noteq> 0)
                     (zip (page_array s) (eremove_since s (release_pass1 env (page_array s) s))))
     \<and> free_pages (release_pass1 env (page_array s) s)
         = free_pages s @ map fst (filter (\<lambda>c. snd c = 0)
                                    (eremove_since s (release_pass1 env (page_array s) s)))
     \<and> (\<forall>k < length (page_array s).
           (snd (eremove_since s (release_pass1 env (page_array s) s) ! k) \<noteq> 0 \<longrightarrow>
              xa_load (page_array (release_pass1 env (page_array s) s)) (fst (page_array s ! k))
                = Some (snd (page_array s ! k)))
         \<and> (snd (eremove_since s (release_pass1 env (page_array s) s) ! k) = 0 \<longrightarrow>
              xa_load (page_array (release_pass1 env (page_array s) s)) (fst (page_array s ! k)) = None
              \<and> snd (page_array s ! k) \<in> set (free_pages (release_pass1 env (page_array s) s))))"
proof -
  let ?xs = "page_array s"
  let ?s1 = "release_pass1 env ?xs s"
  from pass1_spec [where kept = "[]" and xs = ?xs and s = s and env = env] d obtain L where L:
    "length L = length ?xs" "map fst L = map snd ?xs"
    "eremove_calls ?s1 = eremove_calls s @ L"
    "free_pages ?s1 = free_pages s @ map fst (filter (\<lambda>c. snd c = 0) L)"
    "page_array ?s1 = map fst (filter (\<lambda>ec. snd (snd ec) \<noteq> 0) (zip ?xs L))"
    by auto
  have since: "eremove_since s ?s1 = L"
    by (simp add: eremove_since_def L(3))
  have d1: "distinct (map fst (page_array ?s1))"
    unfolding L(5) using zip_filter_sub [OF L(1) d] by blast
  have kept: "xa_load (page_array ?s1) (fst (?xs ! k)) = Some (snd (?xs ! k))"
    if k: "k < length ?xs" and r: "snd (L ! k) \<noteq> 0" for k
  proof -
    have "(?xs ! k, L ! k) \<in> set (zip ?xs L)"
      using k L(1) by (metis length_zip min.idem nth_mem nth_zip)
    then have "?xs ! k \<in> set (page_array ?s1)"
      unfolding L(5) using r by force
    then have "(fst (?xs ! k), snd (?xs ! k)) \<in> set (page_array ?s1)" by simp
    then show ?thesis
      unfolding xa_load_def using d1 by (simp only: map_of_eq_Some_iff)
  qed
  have gone: "xa_load (page_array ?s1) (fst (?xs ! k)) = None
      \<and> snd (?xs ! k) \<in> set (free_pages ?s1)"
    if k: "k < length ?xs" and r: "snd (L ! k) = 0" for k
  proof -
    have "fst (?xs ! k) \<notin> fst ` set (page_array ?s1)"
    proof
      assume "fst (?xs ! k) \<in> fst ` set (page_array ?s1)"
      then obtain e where e: "e \<in> set (page_array ?s1)" "fst e = fst (?xs ! k)" by auto
      from e(1) obtain c where ec: "(e, c) \<in> set (zip ?xs L)" "snd c \<noteq> 0"
        unfolding L(5) by auto
      from ec(1) obtain j where j: "j < length ?xs" "?xs ! j = e" "L ! j = c"
        using L(1) by (auto simp: in_set_zip)
      have "map fst ?xs ! j = map fst ?xs ! k" using j k e(2) by simp
      moreover have "j < length (map fst ?xs)" "k < length (map fst ?xs)" using j(1) k by simp_all
      ultimately have "j = k" using d by (simp only: nth_eq_iff_index_eq)
      with j(3) ec(2) r show False by simp
    qed
    then have a: "xa_load (page_array ?s1) (fst (?xs ! k)) = None"
      by (simp add: xa_load_None_iff)
    have "L ! k \<in> set L" using k L(1) by simp
    moreover have "fst (L ! k) = snd (?xs ! k)"
      using arg_cong [OF L(2), of "\<lambda>l. l ! k"] k L(1) by simp
    ultimately have "snd (?xs ! k) \<in> set (map fst (filter (\<lambda>c. snd c = 0) L))"
      using r by force
    with a show ?thesis by (simp add: L(4))
  qed
  show ?thesis
    unfolding since using L(1,2,4,5) kept gone by blast
qed

theorem release_pass1_keeps_failed_entries_and_moves_on_witness:
  "distinct (map fst (page_array ex_rel))
   \<and> eremove_since ex_rel (release_pass1 ex_env_secs (page_array ex_rel) ex_rel)
       = [(0x1000, 13), (0x1020, 0)]
   \<and> xa_load (page_array (release_pass1 ex_env_secs (page_array ex_rel) ex_rel)) 0 = Some 0x1000
   \<and> xa_load (page_array (release_pass1 ex_env_secs (page_array ex_rel) ex_rel)) 1 = None
   \<and> 0x1020 \<in> set (free_pages (release_pass1 ex_env_secs (page_array ex_rel) ex_rel))"
proof -
  have h: "distinct (map fst (page_array ex_rel))"
    by (simp add: ex_rel_def)
  have log: "eremove_since ex_rel (release_pass1 ex_env_secs (page_array ex_rel) ex_rel)
       = [(0x1000, 13), (0x1020, 0)]"
    by (simp only: ex_rel_pass1) (simp add: eremove_since_def ex_rel_def)
  have pa: "page_array ex_rel = [(0, 0x1000), (1, 0x1020)]"
    by (simp add: ex_rel_def)
  from release_pass1_keeps_failed_entries_and_moves_on [OF h, of ex_env_secs]
  have "\<forall>k < length (page_array ex_rel).
           (snd (eremove_since ex_rel (release_pass1 ex_env_secs (page_array ex_rel) ex_rel) ! k) \<noteq> 0 \<longrightarrow>
              xa_load (page_array (release_pass1 ex_env_secs (page_array ex_rel) ex_rel)) (fst (page_array ex_rel ! k))
                = Some (snd (page_array ex_rel ! k)))
         \<and> (snd (eremove_since ex_rel (release_pass1 ex_env_secs (page_array ex_rel) ex_rel) ! k) = 0 \<longrightarrow>
              xa_load (page_array (release_pass1 ex_env_secs (page_array ex_rel) ex_rel)) (fst (page_array ex_rel ! k)) = None
              \<and> snd (page_array ex_rel ! k) \<in> set (free_pages (release_pass1 ex_env_secs (page_array ex_rel) ex_rel)))"
    by blast
  from this [rule_format, of 0] this [rule_format, of 1] h log
  show ?thesis
    by (simp add: pa)
qed

text \<open>
  Pass 1 on a table whose first entry cannot be removed (its child is the second entry):
  \<^verbatim>\<open>EREMOVE\<close> fails on the first entry, which stays, and the loop then visits the second
  entry, removes it, erases it and frees its page.
\<close>

theorem release_pass1_advances_counterexample:
  "page_array ex_rel = [(0, 0x1000), (1, 0x1020)]
   \<and> eremove_calls (release_pass1 ex_env_secs (page_array ex_rel) ex_rel)
       = [(0x1000, SGX_CHILD_PRESENT), (0x1020, 0)]
   \<and> page_array (release_pass1 ex_env_secs (page_array ex_rel) ex_rel) = [(0, 0x1000)]
   \<and> free_pages (release_pass1 ex_env_secs (page_array ex_rel) ex_rel) = [0x1020]"
  by (simp only: ex_rel_pass1) (simp add: ex_rel_def SGX_CHILD_PRESENT_def)

text \<open>
  C10. \<^verbatim>\<open>sgx_virt_epc_free_page\<close> returns what \<^verbatim>\<open>EREMOVE\<close> returned and hands the page
  back to the page source exactly when that is 0; on any other result, whatever the code,
  the free record is left as it was (a \<open>NULL\<close> page returns 0 and does nothing). A page
  whose removal failed is kept by each pass: pass 1 leaves the table as it is, pass 2 and
  pass 3 put the page on the local list. Over a whole release (on a table whose indices
  are distinct) the pages added to the free record are exactly those of the \<^verbatim>\<open>EREMOVE\<close>
  calls that returned 0, and the zombie list afterwards holds exactly the pages whose
  \<^verbatim>\<open>EREMOVE\<close> failed after pass 1.
\<close>

theorem free_page_only_after_successful_eremove:
  "sgx_virt_epc_free_page env None s = (0, s)
   \<and> fst (sgx_virt_epc_free_page env (Some p) s)
       = fst (eremove env (epcm s) (sgx_get_epc_virt_addr env p))
   \<and> free_pages (snd (sgx_virt_epc_free_page env (Some p) s))
       = free_pages s @ (if fst (eremove env (epcm s) (sgx_get_epc_virt_addr env p)) = 0 then [p] else [])
   \<and> (fst (eremove env (epcm s) (sgx_get_epc_virt_addr env p)) \<noteq> 0 \<longrightarrow>
         free_pages (snd (sgx_virt_epc_free_page env (Some p) s)) = free_pages s
       \<and> page_array (snd (sgx_virt_epc_free_page env (Some p) s)) = page_array s
       \<and> release_pass1 env ((i, p) # rest) s
           = release_pass1 env rest (snd (sgx_virt_epc_free_page env (Some p) s))
       \<and> release_pass2 env ((i, p) # rest) secs s
           = release_pass2 env rest (secs @ [p])
               ((snd (sgx_virt_epc_free_page env (Some p) s))\<lparr>page_array := xa_erase (page_array s) i\<rparr>)
       \<and> release_pass3 env (p # zs) secs s
           = release_pass3 env zs (secs @ [p])
               (snd (sgx_virt_epc_free_page env (Some p)
                      (s\<lparr>virt_epc_zombie_pages := remove1 p (virt_epc_zombie_pages s)\<rparr>))))
   \<and> (distinct (map fst (page_array s)) \<longrightarrow>
         free_pages (snd (sgx_virt_epc_release env s))
           = free_pages s @ map fst (filter (\<lambda>c. snd c = 0)
                                      (eremove_since s (snd (sgx_virt_epc_release env s))))
       \<and> virt_epc_zombie_pages (snd (sgx_virt_epc_release env s))
           = map fst (filter (\<lambda>c. snd c \<noteq> 0)
               (drop (length (page_array s)) (eremove_since s (snd (sgx_virt_epc_release env s))))))"
proof -
  let ?r = "fst (eremove env (epcm s) (sgx_get_epc_virt_addr env p))"
  have a: "sgx_virt_epc_free_page env None s = (0, s)" by (rule free_page_None)
  have b: "fst (sgx_virt_epc_free_page env (Some p) s) = ?r"
    by (simp add: free_page_Some)
  have c: "free_pages (snd (sgx_virt_epc_free_page env (Some p) s))
       = free_pages s @ (if ?r = 0 then [p] else [])"
    by (simp add: free_page_Some)
  have pa: "page_array (snd (sgx_virt_epc_free_page env (Some p) s)) = page_array s"
    by (simp add: free_page_Some)
  obtain r s1 where fp: "sgx_virt_epc_free_page env (Some p) s = (r, s1)"
    by (cases "sgx_virt_epc_free_page env (Some p) s")
  have r: "r = ?r" using free_page_fields(1) [OF fp] .
  have pa1: "page_array s1 = page_array s" using free_page_fields(2) [OF fp] .
  have p1: "release_pass1 env ((i, p) # rest) s
           = release_pass1 env rest (snd (sgx_virt_epc_free_page env (Some p) s))" if "?r \<noteq> 0"
    using that r by (simp add: fp)
  have p2: "release_pass2 env ((i, p) # rest) secs s
           = release_pass2 env rest (secs @ [p])
               ((snd (sgx_virt_epc_free_page env (Some p) s))\<lparr>page_array := xa_erase (page_array s) i\<rparr>)"
    if "?r \<noteq> 0"
    using that r pa1 by (simp add: fp)
  let ?s0 = "s\<lparr>virt_epc_zombie_pages := remove1 p (virt_epc_zombie_pages s)\<rparr>"
  obtain r3 s3 where fp3: "sgx_virt_epc_free_page env (Some p) ?s0 = (r3, s3)"
    by (cases "sgx_virt_epc_free_page env (Some p) ?s0")
  have r3: "r3 = ?r" using free_page_fields(1) [OF fp3] by simp
  have p3: "release_pass3 env (p # zs) secs s
           = release_pass3 env zs (secs @ [p])
               (snd (sgx_virt_epc_free_page env (Some p)
                      (s\<lparr>virt_epc_zombie_pages := remove1 p (virt_epc_zombie_pages s)\<rparr>)))"
    if "?r \<noteq> 0"
    using that r3 by (simp add: fp3)
  have g: "free_pages (snd (sgx_virt_epc_release env s))
           = free_pages s @ map fst (filter (\<lambda>c. snd c = 0)
                                      (eremove_since s (snd (sgx_virt_epc_release env s))))
       \<and> virt_epc_zombie_pages (snd (sgx_virt_epc_release env s))
           = map fst (filter (\<lambda>c. snd c \<noteq> 0)
               (drop (length (page_array s)) (eremove_since s (snd (sgx_virt_epc_release env s)))))"
    if d: "distinct (map fst (page_array s))"
  proof -
    from release_spec [OF d, of env] obtain L1 L2 L3 where
      n1: "length L1 = length (page_array s)"
      and ec: "eremove_calls (snd (sgx_virt_epc_release env s)) = eremove_calls s @ L1 @ L2 @ L3"
      and fr: "free_pages (snd (sgx_virt_epc_release env s))
         = free_pages s @ map fst (filter (\<lambda>c. snd c = 0) (L1 @ L2 @ L3))"
      and zo: "virt_epc_zombie_pages (snd (sgx_virt_epc_release env s))
         = map fst (filter (\<lambda>c. snd c \<noteq> 0) (L2 @ L3))"
      by blast
    have since: "eremove_since s (snd (sgx_virt_epc_release env s)) = L1 @ L2 @ L3"
      by (simp add: eremove_since_def ec)
    have "drop (length (page_array s)) (L1 @ L2 @ L3) = L2 @ L3"
      using n1 by simp
    then show ?thesis
      unfolding since using fr zo by simp
  qed
  show ?thesis
    using a b c pa p1 p2 p3 g by simp
qed

theorem free_page_only_after_successful_eremove_witness:
  "fst (eremove ex_env_secs (epcm ex_rel) (sgx_get_epc_virt_addr ex_env_secs 0x1000)) = SGX_CHILD_PRESENT
   \<and> fst (sgx_virt_epc_free_page ex_env_secs (Some 0x1000) ex_rel) = 13
   \<and> free_pages (snd (sgx_virt_epc_free_page ex_env_secs (Some 0x1000) ex_rel)) = []
   \<and> page_array (snd (sgx_virt_epc_free_page ex_env_secs (Some 0x1000) ex_rel)) = page_array ex_rel
   \<and> distinct (map fst (page_array ex_rel))
   \<and> eremove_since ex_rel (snd (sgx_virt_epc_release ex_env_secs ex_rel))
       = [(0x1000, 13), (0x1020, 0), (0x1000, 0), (0x1040, 13), (0x1080, 0)]
   \<and> free_pages (snd (sgx_virt_epc_release ex_env_secs ex_rel)) = [0x1020, 0x1000, 0x1080]
   \<and> virt_epc_zombie_pages (snd (sgx_virt_epc_release ex_env_secs ex_rel)) = [0x1040]"
proof -
  have r: "fst (eremove ex_env_secs (epcm ex_rel) (sgx_get_epc_virt_addr ex_env_secs 0x1000)) = 13"
    by (simp add: ex_release_defs)
  have h: "distinct (map fst (page_array ex_rel))"
    by (simp add: ex_rel_def)
  have log: "eremove_since ex_rel (snd (sgx_virt_epc_release ex_env_secs ex_rel))
       = [(0x1000, 13), (0x1020, 0), (0x1000, 0), (0x1040, 13), (0x1080, 0)]"
    by (simp only: ex_rel_release) (simp add: eremove_since_def ex_rel_def)
  have fr0: "free_pages ex_rel = []" and n: "length (page_array ex_rel) = 2"
    by (simp_all add: ex_rel_def)
  from free_page_only_after_successful_eremove [of ex_env_secs ex_rel "0x1000" 0 "[]" "[]" "[]"]
    r h
  show ?thesis
    by (simp add: log fr0 n SGX_CHILD_PRESENT_def)
qed

end
